theory Spec2Isabelle
  imports Complex_Main "HOL-Library.AList"
begin

section \<open>Constants of \<^verbatim>\<open>functions/gameroom.mjs\<close>\<close>

type_synonym colour = string

definition GAME_DURATION_SECONDS :: int where
  "GAME_DURATION_SECONDS = 5 * 60"

definition CANVAS_WIDTH :: nat where
  "CANVAS_WIDTH = 100"

definition CANVAS_HEIGHT :: nat where
  "CANVAS_HEIGHT = 100"

definition MAX_PLAYERS_PER_ROOM :: nat where
  "MAX_PLAYERS_PER_ROOM = 8"

definition MIN_PLAYERS_TO_START :: nat where
  "MIN_PLAYERS_TO_START = 2"

definition PLAYER_COLORS :: "colour list" where
  "PLAYER_COLORS =
     [''#FF0000'', ''#00FF00'', ''#0000FF'', ''#FFFF00'',
      ''#FF00FF'', ''#00FFFF'', ''#FFA500'', ''#800080'']"

definition COOLDOWN_MS :: int where
  "COOLDOWN_MS = 1000"

text \<open>The literal \<^verbatim>\<open>'#FFFFFF'\<close> that \<^verbatim>\<open>initializeCanvas\<close> writes and
  \<^verbatim>\<open>handlePlacePixel\<close> compares with: the colour of a cell nobody has claimed.\<close>

definition WHITE :: colour where
  "WHITE = ''#FFFFFF''"

section \<open>Data\<close>

text \<open>
  A row of the canvas is a JavaScript array, that is, an object whose properties are
  addressed by the string form of a number. The model keys a row by the numeric value
  itself: the keys \<open>0, 1, \<dots>, 99\<close> are the array elements, any other key (such as
  \<open>3/2\<close>) is a named property of the array object that is no element of it. A missing
  property reads as \<^verbatim>\<open>undefined\<close>, here \<open>None\<close>. The outer array is only ever read.
\<close>

type_synonym row = "rat \<rightharpoonup> colour"
type_synonym canvas = "row list"

text \<open>The score object \<^verbatim>\<open>{ color: score }\<close>, in the insertion order that
  \<^verbatim>\<open>Object.entries\<close> enumerates.\<close>

type_synonym scoreTable = "(colour \<times> int) list"

text \<open>
  Values that \<^verbatim>\<open>JSON.parse\<close> can put into a field of a message. A number is
  carried by its exact value; the infinities that an overflowing literal parses to fail the
  range test of \<^verbatim>\<open>handlePlacePixel\<close> like any finite number out of range.
\<close>

datatype json = JUndefined | JNull | JBool bool | JNum rat | JStr string | JObject

text \<open>\<^verbatim>\<open>message.payload\<close>: destructuring \<^verbatim>\<open>{ x, y }\<close> throws on
  \<^verbatim>\<open>undefined\<close> and \<^verbatim>\<open>null\<close> (\<open>Nullish\<close>) and reads the two properties of anything
  else (\<open>JUndefined\<close> for a property that is absent).\<close>

datatype payload = Nullish | Fields json json

text \<open>\<^verbatim>\<open>event.data\<close>: \<open>Malformed\<close> is a text on which \<^verbatim>\<open>JSON.parse\<close> throws, or
  which parses to \<^verbatim>\<open>null\<close> so that reading \<^verbatim>\<open>message.type\<close> throws; otherwise
  the message's \<^verbatim>\<open>type\<close> and \<^verbatim>\<open>payload\<close>.\<close>

datatype request = Malformed | Request json payload

datatype msg =
    ErrorMsg string
  | AssignInfo string string colour
  | GameState canvas scoreTable "int option"
  | GameStateOfWorker canvas scoreTable "int option" colour string
  | ScoreUpdate scoreTable
  | TimerUpdate int
  | GameOver "colour option" scoreTable
  | PixelUpdate rat rat colour scoreTable

text \<open>What the room does on its sockets, in order: a \<^verbatim>\<open>send\<close> that returned, a
  \<^verbatim>\<open>send\<close> that threw, a \<^verbatim>\<open>close(code, reason)\<close>.\<close>

datatype wire_event = Sent nat msg | SendFailed nat msg | Closed nat nat string

datatype js_error = TypeError

datatype response = Response nat

text \<open>A session object \<^verbatim>\<open>{ ws, playerId, color, lastPlacement }\<close>. The socket handle
  doubles as the identity of the object: every session is created with a fresh socket.\<close>

record session =
  ws :: nat
  playerId :: string
  color :: colour
  lastPlacement :: int

text \<open>The keys of the durable storage; \<open>None\<close> is a key never written.\<close>

record storage =
  stored_canvasState :: "canvas option"
  stored_scores :: "scoreTable option"
  stored_timeLeft :: "int option"
  stored_gameStarted :: "bool option"
  stored_gameOver :: "bool option"
  stored_gameEndedDueToEmpty :: "bool option"

text \<open>
  The fields of \<^verbatim>\<open>GameRoom\<close>. \<open>sessions\<close> is the array \<^verbatim>\<open>this.sessions\<close>, holding
  references; \<open>heap\<close> holds the session objects themselves, which the listeners of a
  socket keep alive and mutate also after the session has left the array.
  \<open>timerInterval\<close> and \<open>timerResolve\<close> say whether the handle is set. \<open>wire\<close> is the
  trace of socket operations, \<open>nextWs\<close> the next fresh socket handle.
\<close>

record room =
  roomId :: string
  sessions :: "nat list"
  heap :: "nat \<rightharpoonup> session"
  nextWs :: nat
  canvasState :: canvas
  scores :: scoreTable
  timerInterval :: bool
  timerResolve :: bool
  timeLeft :: int
  gameStarted :: bool
  gameOver :: bool
  store :: storage
  wire :: "wire_event list"

section \<open>Sockets and broadcast\<close>

text \<open>A direct \<^verbatim>\<open>ws.send\<close> outside \<^verbatim>\<open>broadcast\<close> goes to the socket that has just
  been accepted or has just delivered the message being handled; it is taken to return.\<close>

definition send :: "nat \<Rightarrow> msg \<Rightarrow> room \<Rightarrow> room" where
  "send w m s = s\<lparr>wire := wire s @ [Sent w m]\<rparr>"

definition closeWs :: "nat \<Rightarrow> nat \<Rightarrow> string \<Rightarrow> room \<Rightarrow> room" where
  "closeWs w code reason s = s\<lparr>wire := wire s @ [Closed w code reason]\<rparr>"

definition removeSession :: "nat \<Rightarrow> room \<Rightarrow> room" where
  "removeSession sessionToRemove s =
     s\<lparr>sessions := filter (\<lambda>r. r \<noteq> sessionToRemove) (sessions s)\<rparr>"

text \<open>
  \<^verbatim>\<open>this.sessions.forEach\<close> walks the array it was called on; \<^verbatim>\<open>removeSession\<close>
  assigns a new array to \<^verbatim>\<open>this.sessions\<close> and leaves the walked one as it was. The
  predicate \<open>broken\<close> says on which sockets \<^verbatim>\<open>send\<close> throws during this call.
\<close>

fun forEachSend :: "(nat \<Rightarrow> bool) \<Rightarrow> msg \<Rightarrow> nat list \<Rightarrow> room \<Rightarrow> room" where
  "forEachSend broken m [] s = s"
| "forEachSend broken m (r # rs) s =
     forEachSend broken m rs
       (if broken r then removeSession r (s\<lparr>wire := wire s @ [SendFailed r m]\<rparr>)
        else send r m s)"

definition broadcast :: "(nat \<Rightarrow> bool) \<Rightarrow> msg \<Rightarrow> room \<Rightarrow> room" where
  "broadcast broken m s = forEachSend broken m (sessions s) s"

section \<open>Canvas and storage\<close>

fun initializeRow :: "nat \<Rightarrow> row" where
  "initializeRow 0 = Map.empty"
| "initializeRow (Suc x) = (initializeRow x)(of_nat x \<mapsto> WHITE)"

fun initializeRows :: "nat \<Rightarrow> canvas" where
  "initializeRows 0 = []"
| "initializeRows (Suc y) = initializeRows y @ [initializeRow CANVAS_WIDTH]"

definition initializeCanvas :: canvas where
  "initializeCanvas = initializeRows CANVAS_HEIGHT"

text \<open>The five \<^verbatim>\<open>put\<close>s of \<^verbatim>\<open>saveState\<close>, taken as one step.\<close>

definition saveState :: "room \<Rightarrow> room" where
  "saveState s =
     s\<lparr>store := (store s)\<lparr>stored_canvasState := Some (canvasState s),
                           stored_scores := Some (scores s),
                           stored_timeLeft := Some (timeLeft s),
                           stored_gameStarted := Some (gameStarted s),
                           stored_gameOver := Some (gameOver s)\<rparr>\<rparr>"

section \<open>The clock\<close>

definition startTimer :: "room \<Rightarrow> room" where
  "startTimer s = s\<lparr>timerInterval := True, timerResolve := True\<rparr>"

definition stopTimer :: "room \<Rightarrow> room" where
  "stopTimer s = s\<lparr>timerInterval := False, timerResolve := False\<rparr>"

definition startGame :: "(nat \<Rightarrow> bool) \<Rightarrow> room \<Rightarrow> room" where
  "startGame broken s =
     (if gameStarted s then s
      else
        let s1 = s\<lparr>gameStarted := True, timeLeft := GAME_DURATION_SECONDS,
                   store := (store s)\<lparr>stored_gameStarted := Some True\<rparr>\<rparr>;
            s2 = startTimer s1
        in broadcast broken (TimerUpdate (timeLeft s2)) s2)"

text \<open>The loop of \<^verbatim>\<open>endGame\<close> over \<^verbatim>\<open>Object.entries(this.scores)\<close>, with the
  variables \<^verbatim>\<open>(winnerColor, highScore, isDraw)\<close>.\<close>

fun winnerLoop ::
  "scoreTable \<Rightarrow> colour option \<times> int \<times> bool \<Rightarrow> colour option \<times> int \<times> bool" where
  "winnerLoop [] acc = acc"
| "winnerLoop ((c, sc) # es) (winnerColor, highScore, isDraw) =
     winnerLoop es
       (if sc > highScore then (Some c, sc, False)
        else if sc = highScore then (winnerColor, highScore, True)
        else (winnerColor, highScore, isDraw))"

definition finalWinner :: "scoreTable \<Rightarrow> colour option" where
  "finalWinner t =
     (case winnerLoop t (None, - 1, False) of
        (winnerColor, highScore, isDraw) \<Rightarrow> if isDraw then None else winnerColor)"

definition endGame :: "(nat \<Rightarrow> bool) \<Rightarrow> room \<Rightarrow> room" where
  "endGame broken s =
     (let s1 = (stopTimer s)\<lparr>gameOver := True, gameStarted := False\<rparr>;
          s2 = broadcast broken (GameOver (finalWinner (scores s1)) (scores s1)) s1;
          s3 = s2\<lparr>store := (store s2)\<lparr>stored_gameOver := Some True,
                                      stored_gameStarted := Some False\<rparr>\<rparr>
      in saveState s3)"

text \<open>One firing of the interval callback installed by \<^verbatim>\<open>startTimer\<close>.\<close>

definition timerTick :: "(nat \<Rightarrow> bool) \<Rightarrow> room \<Rightarrow> room" where
  "timerTick broken s =
     (if timeLeft s > 0 then
        let s1 = s\<lparr>timeLeft := timeLeft s - 1\<rparr>;
            s2 = broadcast broken (TimerUpdate (timeLeft s1)) s1
        in if timeLeft s2 mod 10 = 0 then saveState s2 else s2
      else endGame broken s)"

section \<open>Activation\<close>

definition emptyStorage :: storage where
  "emptyStorage =
     \<lparr>stored_canvasState = None, stored_scores = None, stored_timeLeft = None,
      stored_gameStarted = None, stored_gameOver = None,
      stored_gameEndedDueToEmpty = None\<rparr>"

text \<open>The field initialisers of the constructor; \<^verbatim>\<open>canvasState\<close> is \<^verbatim>\<open>null\<close> (here
  the empty list) until \<^verbatim>\<open>loadState\<close>, which runs under \<^verbatim>\<open>blockConcurrencyWhile\<close>
  before any event is delivered.\<close>

definition constructed :: "string \<Rightarrow> storage \<Rightarrow> room" where
  "constructed rid st =
     \<lparr>roomId = rid, sessions = [], heap = Map.empty, nextWs = 0, canvasState = [],
      scores = [], timerInterval = False, timerResolve = False,
      timeLeft = GAME_DURATION_SECONDS, gameStarted = False, gameOver = False,
      store = st, wire = []\<rparr>"

definition loadState :: "room \<Rightarrow> room" where
  "loadState s =
     (let st = store s;
          s1 = s\<lparr>canvasState :=
                    (case stored_canvasState st of Some cv \<Rightarrow> cv | None \<Rightarrow> initializeCanvas),
                  scores := (case stored_scores st of Some t \<Rightarrow> t | None \<Rightarrow> []),
                  timeLeft :=
                    (case stored_timeLeft st of Some n \<Rightarrow> n | None \<Rightarrow> GAME_DURATION_SECONDS),
                  gameStarted := (case stored_gameStarted st of Some b \<Rightarrow> b | None \<Rightarrow> False),
                  gameOver := (case stored_gameOver st of Some b \<Rightarrow> b | None \<Rightarrow> False)\<rparr>
      in if gameStarted s1 \<and> \<not> gameOver s1 \<and> timeLeft s1 > 0 \<and> \<not> timerInterval s1
         then startTimer s1 else s1)"

definition newGameRoom :: "string \<Rightarrow> storage \<Rightarrow> room" where
  "newGameRoom rid st = loadState (constructed rid st)"

section \<open>Admission\<close>

text \<open>The colours of the sessions in the array, \<^verbatim>\<open>this.sessions.map(s => s.color)\<close>.\<close>

definition usedColors :: "room \<Rightarrow> colour list" where
  "usedColors s =
     concat (map (\<lambda>r. case heap s r of Some ss \<Rightarrow> [color ss] | None \<Rightarrow> []) (sessions s))"

definition hexDigit :: "nat \<Rightarrow> char" where
  "hexDigit d = ''0123456789abcdef'' ! d"

fun toString16 :: "nat \<Rightarrow> string" where
  "toString16 n =
     (if n < 16 then [hexDigit n] else toString16 (n div 16) @ [hexDigit (n mod 16)])"

definition padStart :: "nat \<Rightarrow> char \<Rightarrow> string \<Rightarrow> string" where
  "padStart n c str = replicate (n - length str) c @ str"

text \<open>\<open>rnd\<close> is the value of \<^verbatim>\<open>Math.floor(Math.random()*16777215)\<close>.\<close>

definition assignColor :: "nat \<Rightarrow> room \<Rightarrow> colour" where
  "assignColor rnd s =
     (case find (\<lambda>c. c \<notin> set (usedColors s)) PLAYER_COLORS of
        Some c \<Rightarrow> c
      | None \<Rightarrow> CHR ''#'' # padStart 6 CHR ''0'' (toString16 rnd))"

text \<open>
  The names that every JavaScript object inherits from \<^verbatim>\<open>Object.prototype\<close>. Read
  as a key of the score object such a name gives the inherited value, not
  \<^verbatim>\<open>undefined\<close>; the lookups below are those of JavaScript for every other key.
\<close>

definition objectPrototypeNames :: "string list" where
  "objectPrototypeNames =
     [''constructor'', ''toString'', ''toLocaleString'', ''valueOf'', ''hasOwnProperty'',
      ''isPrototypeOf'', ''propertyIsEnumerable'', ''__proto__'', ''__defineGetter__'',
      ''__defineSetter__'', ''__lookupGetter__'', ''__lookupSetter__'']"

text \<open>\<^verbatim>\<open>this.scores[c]\<close> as a condition, for a key \<open>c\<close> that is not inherited: present
  and not zero.\<close>

definition scoreTruthy :: "scoreTable \<Rightarrow> colour \<Rightarrow> bool" where
  "scoreTruthy t c = (case map_of t c of Some v \<Rightarrow> v \<noteq> 0 | None \<Rightarrow> False)"

text \<open>\<^verbatim>\<open>const session = { ws, playerId, color, lastPlacement: 0 };
  this.sessions.push(session)\<close>.\<close>

definition registerSession :: "nat \<Rightarrow> string \<Rightarrow> colour \<Rightarrow> room \<Rightarrow> room" where
  "registerSession w pid col s =
     s\<lparr>sessions := sessions s @ [w],
       heap := (heap s)(w \<mapsto> \<lparr>ws = w, playerId = pid, color = col, lastPlacement = 0\<rparr>)\<rparr>"

definition handleSession :: "(nat \<Rightarrow> bool) \<Rightarrow> nat \<Rightarrow> string \<Rightarrow> colour \<Rightarrow> room \<Rightarrow> room" where
  "handleSession broken w pid col s =
     (if length (sessions s) \<ge> MAX_PLAYERS_PER_ROOM then
        closeWs w 1008 ''Room full'' (send w (ErrorMsg ''Game room is full.'') s)
      else if gameOver s then
        closeWs w 1000 ''Game ended'' (send w (ErrorMsg ''Game has already ended.'') s)
      else
        let s1 = registerSession w pid col s;
            s2 = (if \<not> scoreTruthy (scores s1) col
                  then s1\<lparr>scores := AList.update col 0 (scores s1)\<rparr> else s1);
            s3 = send w (AssignInfo (roomId s2) pid col) s2;
            s4 = send w (GameState (canvasState s3) (scores s3)
                           (if gameStarted s3 then Some (timeLeft s3) else None)) s3;
            s5 = broadcast broken (ScoreUpdate (scores s4)) s4
        in if \<not> gameStarted s5 \<and> length (sessions s5) \<ge> MIN_PLAYERS_TO_START
           then startGame broken s5 else s5)"

text \<open>
  \<^verbatim>\<open>fetch\<close>: \<open>upgrade\<close> is the \<^verbatim>\<open>Upgrade\<close> header, \<open>pidParam\<close> the \<^verbatim>\<open>playerId\<close>
  search parameter, \<open>uuid\<close> the value of \<^verbatim>\<open>crypto.randomUUID()\<close>. The server end of the
  new \<^verbatim>\<open>WebSocketPair\<close> is the fresh handle \<open>nextWs\<close>.
\<close>

definition fetch ::
  "(nat \<Rightarrow> bool) \<Rightarrow> string option \<Rightarrow> string option \<Rightarrow> string \<Rightarrow> nat \<Rightarrow> room \<Rightarrow> response \<times> room" where
  "fetch broken upgrade pidParam uuid rnd s =
     (if upgrade \<noteq> Some ''websocket'' then (Response 426, s)
      else
        let serverWs = nextWs s;
            s1 = s\<lparr>nextWs := Suc serverWs\<rparr>;
            pid = (case pidParam of Some p \<Rightarrow> if p = [] then uuid else p | None \<Rightarrow> uuid);
            assignedColor = assignColor rnd s1
        in (Response 101, handleSession broken serverWs pid assignedColor s1))"

section \<open>Placement\<close>

text \<open>\<^verbatim>\<open>this.canvasState[y]\<close>: the row when \<open>y\<close> is an index of the outer array,
  \<^verbatim>\<open>undefined\<close> otherwise.\<close>

definition rowAt :: "canvas \<Rightarrow> rat \<Rightarrow> row option" where
  "rowAt cv y =
     (if 0 \<le> y \<and> y = of_int \<lfloor>y\<rfloor> \<and> nat \<lfloor>y\<rfloor> < length cv then Some (cv ! nat \<lfloor>y\<rfloor>) else None)"

text \<open>The property name that a value read from a cell becomes when it indexes the score
  object.\<close>

definition propertyKey :: "colour option \<Rightarrow> string" where
  "propertyKey v = (case v of Some c \<Rightarrow> c | None \<Rightarrow> ''undefined'')"

text \<open>\<^verbatim>\<open>if (oldColor !== '#FFFFFF' && this.scores[oldColor])
  this.scores[oldColor] = Math.max(0, this.scores[oldColor] - 1)\<close>.\<close>

definition decrementOld :: "colour option \<Rightarrow> scoreTable \<Rightarrow> scoreTable" where
  "decrementOld oldColor t =
     (if oldColor \<noteq> Some WHITE \<and> scoreTruthy t (propertyKey oldColor)
      then AList.update (propertyKey oldColor)
             (max 0 (the (map_of t (propertyKey oldColor)) - 1)) t
      else t)"

text \<open>\<^verbatim>\<open>this.scores[newColor] = (this.scores[newColor] || 0) + 1\<close>.\<close>

definition incrementNew :: "colour \<Rightarrow> scoreTable \<Rightarrow> scoreTable" where
  "incrementNew newColor t =
     AList.update newColor
       ((case map_of t newColor of Some v \<Rightarrow> if v = 0 then 0 else v | None \<Rightarrow> 0) + 1) t"

text \<open>
  \<^verbatim>\<open>handlePlacePixel(session, payload)\<close> with \<open>now\<close> the value of \<^verbatim>\<open>Date.now()\<close>.
  \<open>Inl\<close> is an exception thrown out of the function; both places that can throw (the
  destructuring and the read \<^verbatim>\<open>this.canvasState[y][x]\<close>) come before any assignment.
\<close>

definition handlePlacePixel ::
  "(nat \<Rightarrow> bool) \<Rightarrow> session \<Rightarrow> payload \<Rightarrow> int \<Rightarrow> room \<Rightarrow> js_error + room" where
  "handlePlacePixel broken sess pl now s =
     (case pl of
        Nullish \<Rightarrow> Inl TypeError
      | Fields jx jy \<Rightarrow>
          (case (jx, jy) of
             (JNum x, JNum y) \<Rightarrow>
               if x < 0 \<or> x \<ge> of_nat CANVAS_WIDTH \<or> y < 0 \<or> y \<ge> of_nat CANVAS_HEIGHT then
                 Inr (send (ws sess) (ErrorMsg ''Invalid coordinates.'') s)
               else if now - lastPlacement sess < COOLDOWN_MS then Inr s
               else
                 (case rowAt (canvasState s) y of
                    None \<Rightarrow> Inl TypeError
                  | Some r \<Rightarrow>
                      let oldColor = r x; newColor = color sess in
                      if oldColor = Some newColor then Inr s
                      else
                        let s1 = s\<lparr>canvasState :=
                                     (canvasState s)[nat \<lfloor>y\<rfloor> := r(x \<mapsto> newColor)],
                                   heap := (heap s)(ws sess \<mapsto> sess\<lparr>lastPlacement := now\<rparr>)\<rparr>;
                            s2 = s1\<lparr>scores := decrementOld oldColor (scores s1)\<rparr>;
                            s3 = s2\<lparr>scores := incrementNew newColor (scores s2)\<rparr>;
                            s4 = broadcast broken (PixelUpdate x y newColor (scores s3)) s3
                        in Inr (saveState s4))
           | _ \<Rightarrow> Inr (send (ws sess) (ErrorMsg ''Invalid coordinates.'') s)))"

text \<open>
  The \<^verbatim>\<open>message\<close> listener that \<^verbatim>\<open>handleSession\<close> of \<^verbatim>\<open>functions/gameroom.mjs\<close>
  attaches to the socket \<open>w\<close>; it closes over the session object created for \<open>w\<close>. A
  socket without a session object has no listener.
\<close>

definition onMessage :: "(nat \<Rightarrow> bool) \<Rightarrow> nat \<Rightarrow> request \<Rightarrow> int \<Rightarrow> room \<Rightarrow> room" where
  "onMessage broken w req now s =
     (case heap s w of
        None \<Rightarrow> s
      | Some sess \<Rightarrow>
          (case req of
             Malformed \<Rightarrow> send w (ErrorMsg ''Invalid message format.'') s
           | Request ty pl \<Rightarrow>
               if ty = JStr ''placePixel'' then
                 if \<not> gameStarted s \<or> gameOver s then s
                 else
                   (case handlePlacePixel broken sess pl now s of
                      Inl e \<Rightarrow> send w (ErrorMsg ''Invalid message format.'') s
                    | Inr s' \<Rightarrow> s')
               else s))"

text \<open>The same listener as \<^verbatim>\<open>worker.js\<close> writes it: a placement outside a running
  game is answered.\<close>

definition onMessage_worker :: "(nat \<Rightarrow> bool) \<Rightarrow> nat \<Rightarrow> request \<Rightarrow> int \<Rightarrow> room \<Rightarrow> room" where
  "onMessage_worker broken w req now s =
     (case heap s w of
        None \<Rightarrow> s
      | Some sess \<Rightarrow>
          (case req of
             Malformed \<Rightarrow> send w (ErrorMsg ''Invalid message format.'') s
           | Request ty pl \<Rightarrow>
               if ty = JStr ''placePixel'' then
                 if \<not> gameStarted s \<or> gameOver s
                 then send w (ErrorMsg ''Game not active.'') s
                 else
                   (case handlePlacePixel broken sess pl now s of
                      Inl e \<Rightarrow> send w (ErrorMsg ''Invalid message format.'') s
                    | Inr s' \<Rightarrow> s')
               else s))"

text \<open>
  \<^verbatim>\<open>worker.js\<close> holds a second copy of the class. Its \<^verbatim>\<open>handleSession\<close> differs
  from the one above in the messages to the new socket only: one \<^verbatim>\<open>gameState\<close> that
  also carries \<^verbatim>\<open>yourColor\<close> and \<^verbatim>\<open>playerId\<close>, and no \<^verbatim>\<open>assignInfo\<close>.
\<close>

definition handleSession_worker ::
  "(nat \<Rightarrow> bool) \<Rightarrow> nat \<Rightarrow> string \<Rightarrow> colour \<Rightarrow> room \<Rightarrow> room" where
  "handleSession_worker broken w pid col s =
     (if length (sessions s) \<ge> MAX_PLAYERS_PER_ROOM then
        closeWs w 1008 ''Room full'' (send w (ErrorMsg ''Game room is full.'') s)
      else if gameOver s then
        closeWs w 1000 ''Game ended'' (send w (ErrorMsg ''Game has already ended.'') s)
      else
        let s1 = registerSession w pid col s;
            s2 = (if \<not> scoreTruthy (scores s1) col
                  then s1\<lparr>scores := AList.update col 0 (scores s1)\<rparr> else s1);
            s3 = send w (GameStateOfWorker (canvasState s2) (scores s2)
                           (if gameStarted s2 then Some (timeLeft s2) else None) col pid) s2;
            s4 = broadcast broken (ScoreUpdate (scores s3)) s3
        in if \<not> gameStarted s4 \<and> length (sessions s4) \<ge> MIN_PLAYERS_TO_START
           then startGame broken s4 else s4)"

text \<open>
  \<^verbatim>\<open>fetch\<close> of \<^verbatim>\<open>worker.js\<close>: the colour is the \<^verbatim>\<open>color\<close> search parameter of
  the request when there is one (\<open>colorParam\<close>), and the result of \<^verbatim>\<open>assignColor\<close>
  otherwise. The request is the client's own, passed on with its query string.
\<close>

definition fetch_worker ::
  "(nat \<Rightarrow> bool) \<Rightarrow> string option \<Rightarrow> string option \<Rightarrow> string option \<Rightarrow> string \<Rightarrow> nat
     \<Rightarrow> room \<Rightarrow> response \<times> room" where
  "fetch_worker broken upgrade pidParam colorParam uuid rnd s =
     (if upgrade \<noteq> Some ''websocket'' then (Response 426, s)
      else
        let serverWs = nextWs s;
            s1 = s\<lparr>nextWs := Suc serverWs\<rparr>;
            pid = (case pidParam of Some p \<Rightarrow> if p = [] then uuid else p | None \<Rightarrow> uuid);
            assignedColor =
              (case colorParam of
                 Some c \<Rightarrow> if c = [] then assignColor rnd s1 else c
               | None \<Rightarrow> assignColor rnd s1)
        in (Response 101, handleSession_worker broken serverWs pid assignedColor s1))"

section \<open>Disconnection\<close>

definition closeOrErrorHandler :: "nat \<Rightarrow> room \<Rightarrow> room" where
  "closeOrErrorHandler w s =
     (let s1 = removeSession w s
      in if sessions s1 = [] \<and> gameStarted s1
         then (stopTimer s1)\<lparr>store := (store s1)\<lparr>stored_gameEndedDueToEmpty := Some True\<rparr>\<rparr>
         else s1)"

section \<open>Reachable states\<close>

text \<open>
  The events that the runtime delivers to a room, one at a time: a request to \<^verbatim>\<open>fetch\<close>,
  a message on a socket, a close or error of a socket, a firing of the interval, and the
  eviction of the object followed by a new activation on the same storage.
\<close>

datatype event =
    Connect "nat \<Rightarrow> bool" "string option" "string option" string nat
  | Message "nat \<Rightarrow> bool" nat request int
  | CloseOrError nat
  | Tick "nat \<Rightarrow> bool"
  | Reactivate

fun enabled :: "event \<Rightarrow> room \<Rightarrow> bool" where
  "enabled (Connect broken upgrade pidParam uuid rnd) s = True"
| "enabled (Message broken w req now) s = (heap s w \<noteq> None)"
| "enabled (CloseOrError w) s = (heap s w \<noteq> None)"
| "enabled (Tick broken) s = timerInterval s"
| "enabled Reactivate s = True"

fun step :: "event \<Rightarrow> room \<Rightarrow> room" where
  "step (Connect broken upgrade pidParam uuid rnd) s =
     snd (fetch broken upgrade pidParam uuid rnd s)"
| "step (Message broken w req now) s = onMessage broken w req now s"
| "step (CloseOrError w) s = closeOrErrorHandler w s"
| "step (Tick broken) s = timerTick broken s"
| "step Reactivate s = newGameRoom (roomId s) (store s)"

inductive reachable :: "room \<Rightarrow> bool" where
  first_activation: "reachable (newGameRoom rid emptyStorage)"
| after_event: "reachable s \<Longrightarrow> enabled e s \<Longrightarrow> reachable (step e s)"

section \<open>Measures used by the properties\<close>

definition unsetInRow :: "row \<Rightarrow> nat" where
  "unsetInRow r = length (filter (\<lambda>x. r (of_nat x) = Some WHITE) [0..<CANVAS_WIDTH])"

definition unsetCells :: "canvas \<Rightarrow> nat" where
  "unsetCells cv = sum_list (map unsetInRow cv)"

definition scoreSum :: "scoreTable \<Rightarrow> int" where
  "scoreSum t = sum_list (map snd t)"

text \<open>A score object has each colour once; its scores are never negative.\<close>

definition scoresWellFormed :: "scoreTable \<Rightarrow> bool" where
  "scoresWellFormed t = (distinct (map fst t) \<and> list_all (\<lambda>e. 0 \<le> snd e) t)"

text \<open>The colour at column \<open>x\<close> of line \<open>y\<close>, that is \<^verbatim>\<open>canvasState[y][x]\<close>.\<close>

definition cellAt :: "canvas \<Rightarrow> nat \<Rightarrow> nat \<Rightarrow> colour option" where
  "cellAt cv x y = (case rowAt cv (of_nat y) of Some r \<Rightarrow> r (of_nat x) | None \<Rightarrow> None)"

text \<open>What the storage holds of the canvas: nothing while the canvas is still the initial
  one, and the canvas itself afterwards.\<close>

definition storeSync :: "room \<Rightarrow> bool" where
  "storeSync s =
     (stored_canvasState (store s) = Some (canvasState s)
      \<or> stored_canvasState (store s) = None \<and> canvasState s = initializeCanvas)"

definition roomInv :: "room \<Rightarrow> bool" where
  "roomInv s =
     (length (sessions s) \<le> MAX_PLAYERS_PER_ROOM
      \<and> (\<forall>w sess. heap s w = Some sess \<longrightarrow> color sess \<in> set PLAYER_COLORS \<and> ws sess = w)
      \<and> storeSync s)"

text \<open>What an operation that neither admits a session nor paints a cell does to the
  parts of the room that the invariants speak of.\<close>

definition frame :: "room \<Rightarrow> room \<Rightarrow> bool" where
  "frame s s' =
     (heap s' = heap s \<and> canvasState s' = canvasState s
      \<and> length (sessions s') \<le> length (sessions s)
      \<and> (stored_canvasState (store s') = stored_canvasState (store s)
         \<or> stored_canvasState (store s') = Some (canvasState s)))"

text \<open>The score object of the room and the one in the storage are well formed.\<close>

definition scoresInv :: "room \<Rightarrow> bool" where
  "scoresInv s =
     (scoresWellFormed (scores s)
      \<and> (stored_scores (store s) = None
         \<or> (\<exists>t. stored_scores (store s) = Some t \<and> scoresWellFormed t)))"

subsection \<open>Accounting\<close>

text \<open>The cells of a row, and of the canvas, that hold the colour \<open>c\<close>.\<close>

definition colourInRow :: "colour \<Rightarrow> row \<Rightarrow> nat" where
  "colourInRow c r = length (filter (\<lambda>x. r (of_nat x) = Some c) [0..<CANVAS_WIDTH])"

definition colourCells :: "colour \<Rightarrow> canvas \<Rightarrow> nat" where
  "colourCells c cv = sum_list (map (colourInRow c) cv)"

text \<open>\<^verbatim>\<open>this.scores[c] || 0\<close>.\<close>

definition scoreOf :: "scoreTable \<Rightarrow> colour \<Rightarrow> int" where
  "scoreOf t c = (case map_of t c of Some v \<Rightarrow> v | None \<Rightarrow> 0)"

text \<open>
  A canvas and a score object that agree: the canvas has its 100 lines, every cell holds a
  colour, no claimed colour holds more cells than its score, and the scores and the unset
  cells add up to the area.
\<close>

definition accounted :: "canvas \<Rightarrow> scoreTable \<Rightarrow> bool" where
  "accounted cv t =
     (length cv = CANVAS_HEIGHT
      \<and> (\<forall>i < CANVAS_HEIGHT. \<forall>x < CANVAS_WIDTH. (cv ! i) (of_nat x) \<noteq> None)
      \<and> (\<forall>c. c \<noteq> WHITE \<longrightarrow> int (colourCells c cv) \<le> scoreOf t c)
      \<and> scoreSum t + int (unsetCells cv) = int (CANVAS_WIDTH * CANVAS_HEIGHT))"

definition accountInv :: "room \<Rightarrow> bool" where
  "accountInv s =
     (accounted (canvasState s) (scores s)
      \<and> (stored_canvasState (store s) = None \<and> stored_scores (store s) = None
         \<or> (\<exists>cv t. stored_canvasState (store s) = Some cv \<and> stored_scores (store s) = Some t
               \<and> accounted cv t)))"

text \<open>An event that is no placement with a column \<open>x\<close> that is not a whole number.\<close>

fun wholeColumn :: "event \<Rightarrow> bool" where
  "wholeColumn (Message broken w (Request ty (Fields (JNum x) jy)) now) = (x = of_int \<lfloor>x\<rfloor>)"
| "wholeColumn e = True"

text \<open>The payloads that get past the test at the head of \<^verbatim>\<open>handlePlacePixel\<close>:
  \<open>x\<close> and \<open>y\<close> are numbers, and neither \<^verbatim>\<open>x < 0\<close>, \<^verbatim>\<open>x >= CANVAS_WIDTH\<close>,
  \<^verbatim>\<open>y < 0\<close> nor \<^verbatim>\<open>y >= CANVAS_HEIGHT\<close> holds.\<close>

fun passesValidation :: "payload \<Rightarrow> bool" where
  "passesValidation (Fields (JNum x) (JNum y)) =
     (\<not> (x < 0 \<or> x \<ge> of_nat CANVAS_WIDTH \<or> y < 0 \<or> y \<ge> of_nat CANVAS_HEIGHT))"
| "passesValidation pl = False"

text \<open>A run of events from a state, \<open>None\<close> when one of them cannot occur where it
  stands.\<close>

fun run :: "event list \<Rightarrow> room \<Rightarrow> room option" where
  "run [] s = Some s"
| "run (e # es) s = (if enabled e s then run es (step e s) else None)"

subsection \<open>A sample run\<close>

text \<open>No \<^verbatim>\<open>send\<close> throws.\<close>

definition allDelivered :: "nat \<Rightarrow> bool" where
  "allDelivered r = False"

text \<open>First activation, then two players join, which starts the game.\<close>

definition room0 :: room where
  "room0 = newGameRoom ''default-room'' emptyStorage"

definition room1 :: room where
  "room1 = step (Connect allDelivered (Some ''websocket'') (Some ''p1'') ''u1'' 0) room0"

definition room2 :: room where
  "room2 = step (Connect allDelivered (Some ''websocket'') (Some ''p2'') ''u2'' 0) room1"

text \<open>The message \<^verbatim>\<open>{"type":"placePixel","payload":{"x":x,"y":y}}\<close>.\<close>

definition placePixel :: "rat \<Rightarrow> rat \<Rightarrow> request" where
  "placePixel x y = Request (JStr ''placePixel'') (Fields (JNum x) (JNum y))"

text \<open>The first player paints the cell \<open>(3, 4)\<close> at time 5000.\<close>

definition room3 :: room where
  "room3 = step (Message allDelivered 0 (placePixel 3 4) 5000) room2"

text \<open>The first player sends \<^verbatim>\<open>{"x":1.5,"y":0}\<close> at time 5000.\<close>

definition roomHalf :: room where
  "roomHalf = step (Message allDelivered 0 (placePixel (3 / 2) 0) 5000) room2"

text \<open>The same room under \<^verbatim>\<open>worker.js\<close>: the first player joins without a
  \<^verbatim>\<open>color\<close> parameter, the second with \<^verbatim>\<open>?color=%23FFFFFF\<close>; the first paints
  the cell \<open>(3, 4)\<close>, then the second paints it.\<close>

definition workerRoom1 :: room where
  "workerRoom1 =
     snd (fetch_worker allDelivered (Some ''websocket'') (Some ''p1'') None ''u1'' 0 room0)"

definition workerRoom2 :: room where
  "workerRoom2 =
     snd (fetch_worker allDelivered (Some ''websocket'') (Some ''p2'') (Some ''#FFFFFF'')
            ''u2'' 0 workerRoom1)"

definition workerRoom3 :: room where
  "workerRoom3 = onMessage_worker allDelivered 0 (placePixel 3 4) 5000 workerRoom2"

definition workerRoom4 :: room where
  "workerRoom4 = onMessage_worker allDelivered 1 (placePixel 3 4) 5000 workerRoom3"

text \<open>Eight players join a fresh room.\<close>

definition roomFull :: room where
  "roomFull = ((step (Connect allDelivered (Some ''websocket'') None ''u'' 0)) ^^ 8) room0"

section \<open>Broadcast\<close>

lemma forEachSend_eq:
  "forEachSend broken m rs s =
     s\<lparr>sessions := filter (\<lambda>r. \<not> (broken r \<and> r \<in> set rs)) (sessions s),
       wire := wire s @ map (\<lambda>r. if broken r then SendFailed r m else Sent r m) rs\<rparr>"
proof (induction rs arbitrary: s)
  case Nil
  show ?case by simp
next
  case (Cons a rs)
  show ?case
  proof (cases "broken a")
    case True
    have "filter (\<lambda>r. \<not> (broken r \<and> r \<in> set rs)) (filter (\<lambda>r. r \<noteq> a) (sessions s))
          = filter (\<lambda>r. \<not> (broken r \<and> r \<in> set (a # rs))) (sessions s)"
      using True by (auto intro: filter_cong)
    then show ?thesis using True by (simp add: Cons.IH removeSession_def)
  next
    case False
    have "filter (\<lambda>r. \<not> (broken r \<and> r \<in> set rs)) (sessions s)
          = filter (\<lambda>r. \<not> (broken r \<and> r \<in> set (a # rs))) (sessions s)"
      using False by (auto intro: filter_cong)
    then show ?thesis using False by (simp add: Cons.IH send_def)
  qed
qed

lemma broadcast_eq:
  "broadcast broken m s =
     s\<lparr>sessions := filter (\<lambda>r. \<not> broken r) (sessions s),
       wire := wire s @ map (\<lambda>r. if broken r then SendFailed r m else Sent r m) (sessions s)\<rparr>"
proof -
  have "filter (\<lambda>r. \<not> (broken r \<and> r \<in> set (sessions s))) (sessions s)
        = filter (\<lambda>r. \<not> broken r) (sessions s)"
    by (auto intro: filter_cong)
  then show ?thesis by (simp add: broadcast_def forEachSend_eq)
qed

text \<open>
  Claim C9. A broadcast attempts one send to every session that was in the array when it
  began, in order. A send that throws removes that session, and no other, from the array;
  every other session is sent the message; nothing else is written to any socket (no
  error is reported to anyone) and no other field of the room changes.
\<close>

theorem broadcast_delivery:
  "broadcast broken m s =
     s\<lparr>sessions := filter (\<lambda>r. \<not> broken r) (sessions s),
       wire := wire s @ map (\<lambda>r. if broken r then SendFailed r m else Sent r m) (sessions s)\<rparr>"
  by (rule broadcast_eq)

section \<open>The winner\<close>

lemma winnerLoop_high:
  "winnerLoop es (w, h, d) = (w', h', d') \<Longrightarrow> h \<le> h' \<and> (\<forall>e \<in> set es. snd e \<le> h')"
proof (induction es arbitrary: w h d)
  case Nil
  then show ?case by simp
next
  case (Cons e es)
  obtain c sc where e: "e = (c, sc)" by (cases e)
  show ?case using Cons.prems Cons.IH unfolding e
    by (fastforce split: if_splits)
qed

lemma winnerLoop_char:
  assumes "distinct (map fst es)" and "winnerLoop es (w, h, d) = (w', h', d')"
  shows "(h < h' \<longrightarrow> (\<exists>c. w' = Some c \<and> (c, h') \<in> set es
                       \<and> (d' \<longleftrightarrow> (\<exists>c2. c2 \<noteq> c \<and> (c2, h') \<in> set es))))
       \<and> (h' = h \<longrightarrow> w' = w \<and> (d' \<longleftrightarrow> d \<or> (\<exists>c. (c, h) \<in> set es)))"
  using assms
proof (induction es arbitrary: w h d)
  case Nil
  then show ?case by simp
next
  case (Cons e es)
  obtain c sc where e: "e = (c, sc)" by (cases e)
  have dist: "distinct (map fst es)" and fresh: "\<And>k. (c, k) \<notin> set es"
    using Cons.prems(1) unfolding e by (auto simp: image_iff)
  consider (gt) "sc > h" | (eq) "sc = h" | (lt) "sc < h" by linarith
  then show ?case
  proof cases
    case gt
    then have run: "winnerLoop es (Some c, sc, False) = (w', h', d')"
      using Cons.prems(2) unfolding e by simp
    from winnerLoop_high[OF run] have "sc \<le> h'" by simp
    from Cons.IH[OF dist run] gt \<open>sc \<le> h'\<close> fresh show ?thesis
      unfolding e by (cases "sc = h'") (auto, metis)
  next
    case eq
    then have run: "winnerLoop es (w, h, True) = (w', h', d')"
      using Cons.prems(2) unfolding e by simp
    from Cons.IH[OF dist run] eq show ?thesis
      unfolding e by auto
  next
    case lt
    then have run: "winnerLoop es (w, h, d) = (w', h', d')"
      using Cons.prems(2) unfolding e by simp
    from winnerLoop_high[OF run] have "h \<le> h'" by simp
    from Cons.IH[OF dist run] lt \<open>h \<le> h'\<close> show ?thesis
      unfolding e by auto
  qed
qed

lemma finalWinner_Some:
  assumes "scoresWellFormed t"
  shows "finalWinner t = Some c \<longleftrightarrow>
           (\<exists>k. (c, k) \<in> set t \<and> (\<forall>e \<in> set t. fst e \<noteq> c \<longrightarrow> snd e < k))"
proof -
  obtain w' h' d' where run: "winnerLoop t (None, - 1, False) = (w', h', d')"
    by (cases "winnerLoop t (None, - 1, False)")
  have dist: "distinct (map fst t)" and nonneg: "\<And>e. e \<in> set t \<Longrightarrow> 0 \<le> snd e"
    using assms by (auto simp: scoresWellFormed_def list_all_iff)
  note hi = winnerLoop_high[OF run]
  note ch = winnerLoop_char[OF dist run]
  show ?thesis
  proof (cases "t = []")
    case True
    then show ?thesis using run by (simp add: finalWinner_def)
  next
    case False
    then obtain e0 where e0: "e0 \<in> set t" by (cases t) auto
    then have "- 1 < h'" using hi nonneg[OF e0] by force
    with ch obtain c0 where c0: "w' = Some c0" "(c0, h') \<in> set t"
      "d' \<longleftrightarrow> (\<exists>c2. c2 \<noteq> c0 \<and> (c2, h') \<in> set t)" by auto
    have fw: "finalWinner t = (if d' then None else Some c0)"
      using run c0 by (simp add: finalWinner_def)
    show ?thesis
    proof
      assume "finalWinner t = Some c"
      then have "\<not> d'" "c = c0" using fw by (auto split: if_splits)
      have "\<forall>e \<in> set t. fst e \<noteq> c \<longrightarrow> snd e < h'"
      proof (intro ballI impI)
        fix e assume e: "e \<in> set t" "fst e \<noteq> c"
        then have "snd e \<le> h'" using hi by simp
        moreover have "snd e \<noteq> h'"
          using \<open>\<not> d'\<close> c0(3) e \<open>c = c0\<close> by (cases e) auto
        ultimately show "snd e < h'" by simp
      qed
      then show "\<exists>k. (c, k) \<in> set t \<and> (\<forall>e \<in> set t. fst e \<noteq> c \<longrightarrow> snd e < k)"
        using c0(2) \<open>c = c0\<close> by blast
    next
      assume "\<exists>k. (c, k) \<in> set t \<and> (\<forall>e \<in> set t. fst e \<noteq> c \<longrightarrow> snd e < k)"
      then obtain k where k: "(c, k) \<in> set t" "\<forall>e \<in> set t. fst e \<noteq> c \<longrightarrow> snd e < k"
        by blast
      have "k \<le> h'" using hi k(1) by force
      have "c0 = c"
      proof (rule ccontr)
        assume "c0 \<noteq> c"
        then have "h' < k" using k(2) c0(2) by force
        with \<open>k \<le> h'\<close> show False by simp
      qed
      have "\<not> d'"
      proof
        assume d'
        then obtain c2 where "c2 \<noteq> c0" "(c2, h') \<in> set t" using c0(3) by blast
        then have "h' < k" using k(2) \<open>c0 = c\<close> by force
        with \<open>k \<le> h'\<close> show False by simp
      qed
      then show "finalWinner t = Some c" using fw \<open>c0 = c\<close> by simp
    qed
  qed
qed

lemma finalWinner_None:
  assumes "scoresWellFormed t" and "t \<noteq> []"
  shows "finalWinner t = None \<longleftrightarrow>
           (\<exists>c1 c2 k. c1 \<noteq> c2 \<and> (c1, k) \<in> set t \<and> (c2, k) \<in> set t
               \<and> (\<forall>e \<in> set t. snd e \<le> k))"
proof -
  obtain w' h' d' where run: "winnerLoop t (None, - 1, False) = (w', h', d')"
    by (cases "winnerLoop t (None, - 1, False)")
  have dist: "distinct (map fst t)" and nonneg: "\<And>e. e \<in> set t \<Longrightarrow> 0 \<le> snd e"
    using assms by (auto simp: scoresWellFormed_def list_all_iff)
  note hi = winnerLoop_high[OF run]
  note ch = winnerLoop_char[OF dist run]
  obtain e0 where e0: "e0 \<in> set t" using assms(2) by (cases t) auto
  then have "- 1 < h'" using hi nonneg[OF e0] by force
  with ch obtain c0 where c0: "w' = Some c0" "(c0, h') \<in> set t"
    "d' \<longleftrightarrow> (\<exists>c2. c2 \<noteq> c0 \<and> (c2, h') \<in> set t)" by auto
  have fw: "finalWinner t = (if d' then None else Some c0)"
    using run c0 by (simp add: finalWinner_def)
  show ?thesis
  proof
    assume "finalWinner t = None"
    then have d' using fw by (auto split: if_splits)
    then obtain c2 where "c2 \<noteq> c0" "(c2, h') \<in> set t" using c0(3) by blast
    then show "\<exists>c1 c2 k. c1 \<noteq> c2 \<and> (c1, k) \<in> set t \<and> (c2, k) \<in> set t
               \<and> (\<forall>e \<in> set t. snd e \<le> k)"
      using c0(2) hi by blast
  next
    assume "\<exists>c1 c2 k. c1 \<noteq> c2 \<and> (c1, k) \<in> set t \<and> (c2, k) \<in> set t
               \<and> (\<forall>e \<in> set t. snd e \<le> k)"
    then obtain c1 c2 k where t: "c1 \<noteq> c2" "(c1, k) \<in> set t" "(c2, k) \<in> set t"
      "\<forall>e \<in> set t. snd e \<le> k" by blast
    have "k \<le> h'" using hi t(2) by force
    moreover have "h' \<le> k" using t(4) c0(2) by force
    ultimately have "k = h'" by simp
    then have d' using c0(3) t(1,2,3) by metis
    then show "finalWinner t = None" using fw by simp
  qed
qed

lemma endGame_wire:
  "wire (endGame broken s) =
     wire s @ map (\<lambda>r. if broken r
                        then SendFailed r (GameOver (finalWinner (scores s)) (scores s))
                        else Sent r (GameOver (finalWinner (scores s)) (scores s)))
                (sessions s)"
  by (simp add: endGame_def Let_def saveState_def stopTimer_def broadcast_eq)

section \<open>Restart\<close>

lemma handleSession_timeLeft:
  "gameStarted s \<Longrightarrow> timeLeft (handleSession broken w pid col s) = timeLeft s"
  by (simp add: handleSession_def registerSession_def Let_def broadcast_eq send_def closeWs_def)

lemma fetch_timeLeft:
  "gameStarted s \<Longrightarrow> timeLeft (snd (fetch broken upgrade pidParam uuid rnd s)) = timeLeft s"
  by (simp add: fetch_def Let_def handleSession_timeLeft)

lemma timerTick_timeLeft:
  "0 < timeLeft s \<Longrightarrow> timeLeft (timerTick broken s) = timeLeft s - 1"
  by (simp add: timerTick_def Let_def broadcast_eq saveState_def)

text \<open>
  Claim C7. An activation on a storage that holds \<open>gameStarted = true\<close>,
  \<open>gameOver = false\<close> and \<open>timeLeft = t\<close> with \<open>t > 0\<close> has the clock at \<open>t\<close> with the
  interval running: the next tick leaves \<open>t - 1\<close>, and a connection that arrives does not
  set the clock back to the full duration.
\<close>

theorem restart_resumes_clock:
  assumes "stored_gameStarted st = Some True" and "stored_gameOver st = Some False"
    and "stored_timeLeft st = Some t" and "0 < t"
  shows "timeLeft (newGameRoom rid st) = t
       \<and> gameStarted (newGameRoom rid st) \<and> \<not> gameOver (newGameRoom rid st)
       \<and> timerInterval (newGameRoom rid st)
       \<and> enabled (Tick broken) (newGameRoom rid st)
       \<and> timeLeft (timerTick broken (newGameRoom rid st)) = t - 1
       \<and> timeLeft (snd (fetch broken upgrade pidParam uuid rnd (newGameRoom rid st))) = t"
proof -
  have a: "timeLeft (newGameRoom rid st) = t" "gameStarted (newGameRoom rid st)"
    "\<not> gameOver (newGameRoom rid st)" "timerInterval (newGameRoom rid st)"
    using assms
    by (simp_all add: newGameRoom_def loadState_def constructed_def Let_def startTimer_def)
  show ?thesis
    using a assms(4) by (simp add: fetch_timeLeft timerTick_timeLeft)
qed

theorem restart_resumes_clock_witness:
  "timeLeft (newGameRoom [] (emptyStorage\<lparr>stored_timeLeft := Some 120,
       stored_gameStarted := Some True, stored_gameOver := Some False\<rparr>)) = 120
   \<and> timeLeft (timerTick allDelivered (newGameRoom [] (emptyStorage\<lparr>stored_timeLeft := Some 120,
       stored_gameStarted := Some True, stored_gameOver := Some False\<rparr>))) = 119
   \<and> GAME_DURATION_SECONDS = 300"
  using restart_resumes_clock[of "emptyStorage\<lparr>stored_timeLeft := Some 120,
       stored_gameStarted := Some True, stored_gameOver := Some False\<rparr>" 120 "[]" allDelivered]
  by (simp add: emptyStorage_def GAME_DURATION_SECONDS_def)

section \<open>Placing a colour that is already there\<close>

lemma handlePlacePixel_same_colour:
  assumes "0 \<le> x" "x < of_nat CANVAS_WIDTH" "0 \<le> y" "y < of_nat CANVAS_HEIGHT"
    and "rowAt (canvasState s) y = Some r" and "r x = Some (color sess)"
  shows "handlePlacePixel broken sess (Fields (JNum x) (JNum y)) now s = Inr s"
  using assms by (simp add: handlePlacePixel_def Let_def not_le)

text \<open>
  Claim C6. A placement with coordinates in range whose target \<^verbatim>\<open>canvasState[y][x]\<close>
  already holds the colour of the placing session returns the room as it was: canvas,
  scores, session objects, storage and the trace of the sockets (so no broadcast) are
  unchanged, whether it comes through the listener or not.
\<close>

theorem placePixel_own_colour_noop:
  assumes "heap s w = Some sess"
    and "0 \<le> x" "x < of_nat CANVAS_WIDTH" "0 \<le> y" "y < of_nat CANVAS_HEIGHT"
    and "rowAt (canvasState s) y = Some r" and "r x = Some (color sess)"
  shows "handlePlacePixel broken sess (Fields (JNum x) (JNum y)) now s = Inr s
       \<and> onMessage broken w (placePixel x y) now s = s"
  using assms handlePlacePixel_same_colour[OF assms(2-7)]
  by (simp add: onMessage_def placePixel_def)

section \<open>Invariants of the reachable states\<close>

lemma palette_distinct: "distinct PLAYER_COLORS" "length PLAYER_COLORS = 8"
  by (simp_all add: PLAYER_COLORS_def)

lemma length_concat_singletons:
  "(\<And>r. length (f r) \<le> Suc 0) \<Longrightarrow> length (concat (map f rs)) \<le> length rs"
proof (induction rs)
  case Nil
  show ?case by simp
next
  case (Cons a rs)
  have "length (f a) \<le> Suc 0" by (rule Cons.prems)
  moreover have "length (concat (map f rs)) \<le> length rs"
    using Cons.IH Cons.prems by blast
  ultimately show ?case by simp
qed

lemma length_usedColors: "length (usedColors s) \<le> length (sessions s)"
  unfolding usedColors_def
  by (rule length_concat_singletons) (simp split: option.splits)

lemma assignColor_palette:
  assumes "length (sessions s) < MAX_PLAYERS_PER_ROOM"
  shows "assignColor rnd s \<in> set PLAYER_COLORS"
proof (cases "find (\<lambda>c. c \<notin> set (usedColors s)) PLAYER_COLORS")
  case None
  then have "set PLAYER_COLORS \<subseteq> set (usedColors s)"
    by (auto simp: find_None_iff)
  then have "card (set PLAYER_COLORS) \<le> card (set (usedColors s))"
    by (intro card_mono) auto
  also have "\<dots> \<le> length (usedColors s)" by (rule card_length)
  also have "\<dots> \<le> length (sessions s)" by (rule length_usedColors)
  finally have "8 \<le> length (sessions s)"
    using palette_distinct by (simp add: distinct_card)
  with assms show ?thesis by (simp add: MAX_PLAYERS_PER_ROOM_def)
next
  case (Some c)
  then have "c \<in> set PLAYER_COLORS" by (auto simp: find_Some_iff)
  with Some show ?thesis by (simp add: assignColor_def)
qed


lemma palette_not_white: "c \<in> set PLAYER_COLORS \<Longrightarrow> c \<noteq> WHITE"
  by (auto simp: PLAYER_COLORS_def WHITE_def)

lemma broadcast_fields:
  "heap (broadcast broken m s) = heap s"
  "canvasState (broadcast broken m s) = canvasState s"
  "scores (broadcast broken m s) = scores s"
  "store (broadcast broken m s) = store s"
  "gameStarted (broadcast broken m s) = gameStarted s"
  "gameOver (broadcast broken m s) = gameOver s"
  "timeLeft (broadcast broken m s) = timeLeft s"
  "timerInterval (broadcast broken m s) = timerInterval s"
  "nextWs (broadcast broken m s) = nextWs s"
  "roomId (broadcast broken m s) = roomId s"
  "sessions (broadcast broken m s) = filter (\<lambda>r. \<not> broken r) (sessions s)"
  by (simp_all add: broadcast_eq)

lemma frame_refl: "frame s s"
  by (simp add: frame_def)

lemma frame_trans: "frame s s' \<Longrightarrow> frame s' s'' \<Longrightarrow> frame s s''"
  by (auto simp: frame_def)

lemma frame_broadcast: "frame s (broadcast broken m s)"
  by (simp add: frame_def broadcast_fields)

lemma frame_startGame: "frame s (startGame broken s)"
  by (simp add: frame_def startGame_def startTimer_def Let_def broadcast_fields)

lemma frame_endGame: "frame s (endGame broken s)"
  by (simp add: frame_def endGame_def stopTimer_def saveState_def Let_def broadcast_fields)

lemma frame_timerTick: "frame s (timerTick broken s)"
  using frame_endGame[of s broken]
  by (simp add: frame_def timerTick_def saveState_def Let_def broadcast_fields)

lemma frame_close: "frame s (closeOrErrorHandler w s)"
  by (simp add: frame_def closeOrErrorHandler_def removeSession_def stopTimer_def Let_def)

lemma roomInv_frame: "roomInv s \<Longrightarrow> frame s s' \<Longrightarrow> roomInv s'"
  by (auto simp: roomInv_def frame_def storeSync_def split: option.splits)

lemma roomInv_newGameRoom: "storeSync s \<Longrightarrow> roomInv (newGameRoom rid (store s))"
  by (simp add: roomInv_def storeSync_def newGameRoom_def loadState_def constructed_def
      startTimer_def Let_def split: option.splits)

lemma roomInv_first: "roomInv (newGameRoom rid emptyStorage)"
  by (simp add: roomInv_def storeSync_def newGameRoom_def loadState_def constructed_def
      startTimer_def Let_def emptyStorage_def split: option.splits)

lemma handleSession_cases:
  "(MAX_PLAYERS_PER_ROOM \<le> length (sessions s) \<or> gameOver s)
     \<and> frame s (handleSession broken w pid col s)
   \<or> length (sessions s) < MAX_PLAYERS_PER_ROOM \<and> \<not> gameOver s
      \<and> frame (registerSession w pid col s) (handleSession broken w pid col s)"
proof -
  have "frame s (closeWs w c r (send w m s))" for c r m
    by (simp add: frame_def closeWs_def send_def)
  moreover have "frame (registerSession w pid col s) (handleSession broken w pid col s)"
    if "length (sessions s) < MAX_PLAYERS_PER_ROOM" "\<not> gameOver s"
    using that
    by (simp add: frame_def handleSession_def Let_def send_def broadcast_fields
        startGame_def startTimer_def)
  ultimately show ?thesis
    by (cases "MAX_PLAYERS_PER_ROOM \<le> length (sessions s)") (auto simp: handleSession_def)
qed

lemma roomInv_handleSession:
  assumes "roomInv s" and "col \<in> set PLAYER_COLORS"
  shows "roomInv (handleSession broken w pid col s)"
proof -
  have "roomInv (registerSession w pid col s)" if "length (sessions s) < MAX_PLAYERS_PER_ROOM"
    using assms that
    by (auto simp: roomInv_def storeSync_def registerSession_def split: option.splits)
  then show ?thesis
    using handleSession_cases[of s broken w pid col] assms(1) roomInv_frame by blast
qed

lemma roomInv_fetch:
  assumes "roomInv s"
  shows "roomInv (snd (fetch broken upgrade pidParam uuid rnd s))"
proof (cases "upgrade = Some ''websocket''")
  case False
  then show ?thesis using assms by (simp add: fetch_def)
next
  case True
  let ?s1 = "s\<lparr>nextWs := Suc (nextWs s)\<rparr>"
  have inv1: "roomInv ?s1" using assms by (simp add: roomInv_def storeSync_def)
  show ?thesis
  proof (cases "length (sessions s) < MAX_PLAYERS_PER_ROOM")
    case lt: True
    then have "assignColor rnd ?s1 \<in> set PLAYER_COLORS"
      by (intro assignColor_palette) simp
    then show ?thesis
      using True inv1 by (simp add: fetch_def Let_def roomInv_handleSession)
  next
    case ge: False
    then have "frame ?s1 (handleSession broken (nextWs s) pid col ?s1)" for pid col
      using handleSession_cases[of ?s1 broken "nextWs s" pid col] by auto
    then show ?thesis
      using True inv1 roomInv_frame by (simp add: fetch_def Let_def)
  qed
qed


lemma handlePlacePixel_cases:
  assumes "handlePlacePixel broken sess pl now s = Inr s'"
  shows "frame s s'
       \<or> (\<exists>x y r. pl = Fields (JNum x) (JNum y) \<and> rowAt (canvasState s) y = Some r
            \<and> r x \<noteq> Some (color sess)
            \<and> heap s' = (heap s)(ws sess \<mapsto> sess\<lparr>lastPlacement := now\<rparr>)
            \<and> canvasState s' = (canvasState s)[nat \<lfloor>y\<rfloor> := r(x \<mapsto> color sess)]
            \<and> stored_canvasState (store s') = Some (canvasState s')
            \<and> length (sessions s') \<le> length (sessions s))"
proof (cases pl)
  case Nullish
  then show ?thesis using assms by (simp add: handlePlacePixel_def)
next
  case (Fields jx jy)
  have err: "frame s (send w m s)" for w m by (simp add: frame_def send_def)
  show ?thesis
  proof (cases "\<exists>x y. jx = JNum x \<and> jy = JNum y")
    case False
    then have "s' = send (ws sess) (ErrorMsg ''Invalid coordinates.'') s"
      using assms Fields by (auto simp: handlePlacePixel_def split: json.splits)
    then show ?thesis using err by simp
  next
    case True
    then obtain x y where xy: "jx = JNum x" "jy = JNum y" by blast
    show ?thesis
    proof (cases "x < 0 \<or> x \<ge> of_nat CANVAS_WIDTH \<or> y < 0 \<or> y \<ge> of_nat CANVAS_HEIGHT")
      case True
      then have "s' = send (ws sess) (ErrorMsg ''Invalid coordinates.'') s"
        using assms Fields xy by (auto simp: handlePlacePixel_def)
      then show ?thesis using err by simp
    next
      case valid: False
      show ?thesis
      proof (cases "now - lastPlacement sess < COOLDOWN_MS")
        case True
        then have "s' = s" using assms Fields xy valid by (auto simp: handlePlacePixel_def)
        then show ?thesis by (simp add: frame_refl)
      next
        case cool: False
        then obtain r where r: "rowAt (canvasState s) y = Some r"
          using assms Fields xy valid by (auto simp: handlePlacePixel_def split: option.splits)
        show ?thesis
        proof (cases "r x = Some (color sess)")
          case True
          then have "s' = s" using assms Fields xy valid cool r
            by (auto simp: handlePlacePixel_def)
          then show ?thesis by (simp add: frame_refl)
        next
          case False
          then show ?thesis
            using assms Fields xy valid cool r
            by (auto simp: handlePlacePixel_def Let_def saveState_def broadcast_fields)
        qed
      qed
    qed
  qed
qed


lemma onMessage_cases:
  assumes "roomInv s"
  shows "frame s (onMessage broken w req now s)
       \<or> (\<exists>sess x y r. heap s w = Some sess \<and> req = Request (JStr ''placePixel'') (Fields (JNum x) (JNum y))
            \<and> rowAt (canvasState s) y = Some r
            \<and> r x \<noteq> Some (color sess)
            \<and> heap (onMessage broken w req now s) = (heap s)(w \<mapsto> sess\<lparr>lastPlacement := now\<rparr>)
            \<and> canvasState (onMessage broken w req now s)
                = (canvasState s)[nat \<lfloor>y\<rfloor> := r(x \<mapsto> color sess)]
            \<and> stored_canvasState (store (onMessage broken w req now s))
                = Some (canvasState (onMessage broken w req now s))
            \<and> length (sessions (onMessage broken w req now s)) \<le> length (sessions s))"
proof (cases "heap s w")
  case None
  then show ?thesis by (simp add: onMessage_def frame_refl)
next
  case (Some sess)
  then have w: "ws sess = w" using assms by (simp add: roomInv_def)
  have err: "frame s (send w m s)" for m by (simp add: frame_def send_def)
  show ?thesis
  proof (cases req)
    case Malformed
    then show ?thesis using Some err by (simp add: onMessage_def)
  next
    case (Request ty pl)
    show ?thesis
    proof (cases "ty = JStr ''placePixel'' \<and> gameStarted s \<and> \<not> gameOver s")
      case False
      then show ?thesis using Some Request by (auto simp: onMessage_def frame_refl)
    next
      case True
      show ?thesis
      proof (cases "handlePlacePixel broken sess pl now s")
        case (Inl e)
        then show ?thesis using Some Request True err by (simp add: onMessage_def)
      next
        case (Inr s')
        then have eq: "onMessage broken w req now s = s'"
          using Some Request True by (simp add: onMessage_def)
        from handlePlacePixel_cases[OF Inr] show ?thesis
          unfolding eq using Some Request True w by auto
      qed
    qed
  qed
qed

lemma roomInv_onMessage:
  assumes "roomInv s"
  shows "roomInv (onMessage broken w req now s)"
  using onMessage_cases[OF assms, of broken w req now]
proof (elim disjE exE conjE)
  assume "frame s (onMessage broken w req now s)"
  then show ?thesis using assms roomInv_frame by blast
next
  fix sess x y r
  assume h: "heap s w = Some sess"
    "heap (onMessage broken w req now s) = (heap s)(w \<mapsto> sess\<lparr>lastPlacement := now\<rparr>)"
    "stored_canvasState (store (onMessage broken w req now s))
                = Some (canvasState (onMessage broken w req now s))"
    "length (sessions (onMessage broken w req now s)) \<le> length (sessions s)"
  show ?thesis
    using assms h by (auto simp: roomInv_def storeSync_def)
qed

lemma roomInv_step: "roomInv s \<Longrightarrow> roomInv (step e s)"
proof (cases e)
  case (Connect broken upgrade pidParam uuid rnd)
  then show "roomInv s \<Longrightarrow> ?thesis" by (simp add: roomInv_fetch)
next
  case (Message broken w req now)
  then show "roomInv s \<Longrightarrow> ?thesis" by (simp add: roomInv_onMessage)
next
  case (CloseOrError w)
  then show "roomInv s \<Longrightarrow> ?thesis" using roomInv_frame[OF _ frame_close] by simp
next
  case (Tick broken)
  then show "roomInv s \<Longrightarrow> ?thesis" using roomInv_frame[OF _ frame_timerTick] by simp
next
  case Reactivate
  then show "roomInv s \<Longrightarrow> ?thesis"
    using roomInv_newGameRoom[of s "roomId s"] by (simp add: roomInv_def)
qed

lemma reachable_roomInv: "reachable s \<Longrightarrow> roomInv s"
  by (induction rule: reachable.induct) (simp_all add: roomInv_first roomInv_step)

lemma handleSession_full:
  "MAX_PLAYERS_PER_ROOM \<le> length (sessions s) \<Longrightarrow>
   handleSession broken w pid col s
     = closeWs w 1008 ''Room full'' (send w (ErrorMsg ''Game room is full.'') s)"
  by (simp add: handleSession_def)

text \<open>
  Claim C8. In every reachable state the array of sessions has at most 8 entries, also
  after one more request to \<^verbatim>\<open>fetch\<close>. A connection handled while 8 sessions are
  in the array is sent the error \<open>Game room is full.\<close> and closed with code 1008 (policy
  violation); it is not registered, and nothing but the trace of its socket changes.
\<close>

theorem sessions_at_most_eight:
  assumes "reachable s"
  shows "length (sessions s) \<le> 8
       \<and> length (sessions (snd (fetch broken upgrade pidParam uuid rnd s))) \<le> 8
       \<and> (length (sessions s) = 8 \<longrightarrow>
            handleSession broken w pid col s
              = s\<lparr>wire := wire s @ [Sent w (ErrorMsg ''Game room is full.''),
                                     Closed w 1008 ''Room full'']\<rparr>)"
proof -
  have "reachable (step (Connect broken upgrade pidParam uuid rnd) s)"
    using assms by (rule reachable.after_event) simp
  then show ?thesis
    using reachable_roomInv[OF assms] reachable_roomInv[of "step (Connect broken upgrade pidParam uuid rnd) s"]
    by (simp add: roomInv_def MAX_PLAYERS_PER_ROOM_def handleSession_def closeWs_def send_def)
qed


lemma rowAt_SomeD: "rowAt cv y = Some r \<Longrightarrow> nat \<lfloor>y\<rfloor> < length cv \<and> r = cv ! nat \<lfloor>y\<rfloor>"
  by (auto simp: rowAt_def split: if_splits)

lemma rowAt_of_nat: "rowAt cv (of_nat y) = (if y < length cv then Some (cv ! y) else None)"
  by (simp add: rowAt_def)

lemma cellAt_update:
  "i < length cv \<Longrightarrow>
   cellAt (cv[i := r']) x y = (if y = i then r' (of_nat x) else cellAt cv x y)"
  by (simp add: cellAt_def rowAt_of_nat)

lemma length_filter_imp:
  "(\<And>x. x \<in> set xs \<Longrightarrow> P x \<Longrightarrow> Q x) \<Longrightarrow> length (filter P xs) \<le> length (filter Q xs)"
  by (induction xs) auto

lemma unsetInRow_paint: "c \<noteq> WHITE \<Longrightarrow> unsetInRow (r(k \<mapsto> c)) \<le> unsetInRow r"
  unfolding unsetInRow_def by (rule length_filter_imp) (auto split: if_splits)

lemma unsetCells_update:
  assumes "i < length cv" and "unsetInRow r' \<le> unsetInRow (cv ! i)"
  shows "unsetCells (cv[i := r']) \<le> unsetCells cv"
proof -
  have "unsetCells (cv[i := r']) = sum_list ((map unsetInRow cv)[i := unsetInRow r'])"
    by (simp add: unsetCells_def map_update)
  also have "\<dots> = sum_list (map unsetInRow cv) + unsetInRow r' - (map unsetInRow cv) ! i"
    using assms(1) by (simp add: sum_list_update)
  also have "\<dots> \<le> sum_list (map unsetInRow cv)"
    using assms by simp
  finally show ?thesis by (simp add: unsetCells_def)
qed

lemma step_canvas:
  assumes "roomInv s"
  shows "canvasState (step e s) = canvasState s
       \<or> (\<exists>c k i. c \<in> set PLAYER_COLORS \<and> i < length (canvasState s)
            \<and> canvasState (step e s) = (canvasState s)[i := ((canvasState s) ! i)(k \<mapsto> c)])"
proof (cases e)
  case (Connect broken upgrade pidParam uuid rnd)
  have "canvasState (handleSession broken w pid col s') = canvasState s'" for w pid col s'
    using handleSession_cases[of s' broken w pid col]
    by (auto simp: frame_def registerSession_def)
  then show ?thesis using Connect by (simp add: fetch_def Let_def)
next
  case (Message broken w req now)
  from onMessage_cases[OF assms, of broken w req now] show ?thesis
  proof (elim disjE exE conjE)
    assume "frame s (onMessage broken w req now s)"
    then show ?thesis using Message by (simp add: frame_def)
  next
    fix sess x y r
    assume h: "heap s w = Some sess" "rowAt (canvasState s) y = Some r"
      "canvasState (onMessage broken w req now s)
         = (canvasState s)[nat \<lfloor>y\<rfloor> := r(x \<mapsto> color sess)]"
    have "color sess \<in> set PLAYER_COLORS" using assms h(1) by (simp add: roomInv_def)
    then show ?thesis using Message h(3) rowAt_SomeD[OF h(2)] by auto
  qed
next
  case (CloseOrError w)
  then show ?thesis using frame_close[of s w] by (simp add: frame_def)
next
  case (Tick broken)
  then show ?thesis using frame_timerTick[of s broken] by (simp add: frame_def)
next
  case Reactivate
  then show ?thesis using assms
    by (auto simp: roomInv_def storeSync_def newGameRoom_def loadState_def constructed_def
        startTimer_def Let_def)
qed

lemma step_keeps_paint:
  assumes "roomInv s"
  shows "(\<forall>x y. cellAt (canvasState s) x y \<noteq> Some WHITE
             \<longrightarrow> cellAt (canvasState (step e s)) x y \<noteq> Some WHITE)
       \<and> unsetCells (canvasState (step e s)) \<le> unsetCells (canvasState s)"
  using step_canvas[OF assms, of e]
proof (elim disjE exE conjE)
  assume "canvasState (step e s) = canvasState s"
  then show ?thesis by simp
next
  fix c k i
  assume h: "c \<in> set PLAYER_COLORS" "i < length (canvasState s)"
    "canvasState (step e s) = (canvasState s)[i := ((canvasState s) ! i)(k \<mapsto> c)]"
  have c: "c \<noteq> WHITE" using h(1) by (rule palette_not_white)
  have "cellAt (canvasState s) x i = (canvasState s ! i) (of_nat x)" for x
    using h(2) by (simp add: cellAt_def rowAt_of_nat)
  then show ?thesis
    using h(2) c unfolding h(3)
    by (auto simp: cellAt_update intro!: unsetCells_update unsetInRow_paint)
qed

lemma run_reachable: "reachable s \<Longrightarrow> run es s = Some s' \<Longrightarrow> reachable s'"
proof (induction es arbitrary: s)
  case Nil
  then show ?case by simp
next
  case (Cons e es)
  then show ?case
    by (auto split: if_splits intro: reachable.after_event)
qed

text \<open>
  In \<^verbatim>\<open>functions/gameroom.mjs\<close>, where the colour of a session is always the result
  of \<^verbatim>\<open>assignColor\<close>: along any run of events from a reachable state (new activations on
  the same storage included), a cell that is not unset is not unset afterwards either, the
  number of unset cells does not grow, and no session object carries the unset colour.
\<close>

lemma painted_cells_stay_painted:
  assumes "reachable s" and "run es s = Some s'"
  shows "(\<forall>x y. cellAt (canvasState s) x y \<noteq> Some WHITE
             \<longrightarrow> cellAt (canvasState s') x y \<noteq> Some WHITE)
       \<and> unsetCells (canvasState s') \<le> unsetCells (canvasState s)
       \<and> (\<forall>w sess. heap s w = Some sess \<longrightarrow> color sess \<noteq> WHITE)"
  using assms
proof (induction es arbitrary: s)
  case Nil
  then show ?case
    using reachable_roomInv[of s] by (auto simp: roomInv_def dest: palette_not_white)
next
  case (Cons e es)
  from Cons.prems(2) have en: "enabled e s" and rest: "run es (step e s) = Some s'"
    by (auto split: if_splits)
  have r': "reachable (step e s)" using Cons.prems(1) en by (rule reachable.after_event)
  note ih = Cons.IH[OF r' rest]
  note st = step_keeps_paint[OF reachable_roomInv[OF Cons.prems(1)], of e]
  have "\<forall>w sess. heap s w = Some sess \<longrightarrow> color sess \<noteq> WHITE"
    using reachable_roomInv[OF Cons.prems(1)] by (auto simp: roomInv_def dest: palette_not_white)
  moreover have "unsetCells (canvasState s') \<le> unsetCells (canvasState s)"
    using ih st by linarith
  moreover have "\<forall>x y. cellAt (canvasState s) x y \<noteq> Some WHITE
             \<longrightarrow> cellAt (canvasState s') x y \<noteq> Some WHITE"
    using ih st by blast
  ultimately show ?case by blast
qed

subsection \<open>The score object stays well formed\<close>

lemma set_update_subset: "set (AList.update k v t) \<subseteq> insert (k, v) (set t)"
  by (induction t) auto

lemma scoresWellFormed_update:
  "scoresWellFormed t \<Longrightarrow> 0 \<le> v \<Longrightarrow> scoresWellFormed (AList.update c v t)"
  using set_update_subset[of c v t]
  by (auto simp: scoresWellFormed_def list_all_iff distinct_update)

lemma scoresInv_same:
  assumes "scoresInv s" and "scores s' = scores s"
    and "stored_scores (store s') = stored_scores (store s)
         \<or> stored_scores (store s') = Some (scores s)"
  shows "scoresInv s'"
  using assms by (auto simp: scoresInv_def)

lemma scoresInv_broadcast: "scoresInv (broadcast broken m s) = scoresInv s"
  by (simp add: scoresInv_def broadcast_fields)

lemma scoresInv_startGame:
  assumes "scoresInv s"
  shows "scoresInv (startGame broken s)"
  using assms
  by (rule scoresInv_same) (simp_all add: startGame_def startTimer_def Let_def broadcast_fields)

lemma endGame_scores:
  "scores (endGame broken s) = scores s"
  "stored_scores (store (endGame broken s)) = Some (scores s)"
  by (simp_all add: endGame_def stopTimer_def saveState_def Let_def broadcast_fields)

lemma scoresInv_endGame:
  assumes "scoresInv s"
  shows "scoresInv (endGame broken s)"
  using assms by (rule scoresInv_same) (simp_all add: endGame_scores)

lemma scoresInv_timerTick:
  assumes "scoresInv s"
  shows "scoresInv (timerTick broken s)"
  using assms
  by (rule scoresInv_same)
    (simp_all add: timerTick_def endGame_scores saveState_def Let_def broadcast_fields)

lemma scoresInv_close:
  assumes "scoresInv s"
  shows "scoresInv (closeOrErrorHandler w s)"
  using assms
  by (rule scoresInv_same)
    (simp_all add: closeOrErrorHandler_def removeSession_def stopTimer_def Let_def)

lemma scoresInv_handleSession:
  assumes "scoresInv s"
  shows "scoresInv (handleSession broken w pid col s)"
proof -
  have wf: "scoresWellFormed (AList.update col 0 (scores s))"
    using assms by (simp add: scoresInv_def scoresWellFormed_update)
  have keep: "scoresInv (s\<lparr>scores := AList.update col 0 (scores s)\<rparr>)"
    using assms wf by (simp add: scoresInv_def)
  have reject: "scoresInv (closeWs w c r (send w m s))" for c r m
    using assms by (simp add: scoresInv_def closeWs_def send_def)
  have admit: "scoresInv (handleSession broken w pid col s)"
    if "\<not> MAX_PLAYERS_PER_ROOM \<le> length (sessions s)" "\<not> gameOver s"
  proof (cases "scoreTruthy (scores s) col")
    case True
    have "scoresInv s" by (rule assms)
    then show ?thesis
      by (rule scoresInv_same)
        (simp_all add: that True handleSession_def registerSession_def Let_def send_def
          broadcast_fields startGame_def startTimer_def)
  next
    case False
    from keep show ?thesis
      by (rule scoresInv_same)
        (simp_all add: that False handleSession_def registerSession_def Let_def send_def
          broadcast_fields startGame_def startTimer_def)
  qed
  show ?thesis
  proof (cases "MAX_PLAYERS_PER_ROOM \<le> length (sessions s) \<or> gameOver s")
    case True
    then show ?thesis using reject by (auto simp: handleSession_def)
  next
    case False
    then show ?thesis using admit by simp
  qed
qed

lemma scoresInv_fetch:
  assumes "scoresInv s"
  shows "scoresInv (snd (fetch broken upgrade pidParam uuid rnd s))"
proof -
  have "scoresInv (s\<lparr>nextWs := Suc (nextWs s)\<rparr>)" using assms by (simp add: scoresInv_def)
  then show ?thesis using assms by (simp add: fetch_def Let_def scoresInv_handleSession)
qed

lemma scoresInv_handlePlacePixel:
  assumes "scoresInv s" and "handlePlacePixel broken sess pl now s = Inr s'"
  shows "scoresInv s'"
proof -
  have wf: "scoresWellFormed (scores s)" using assms(1) by (simp add: scoresInv_def)
  have nonneg: "0 \<le> v" if "map_of t c = Some v" "scoresWellFormed t" for t c v
    using that map_of_SomeD[OF that(1)] by (auto simp: scoresWellFormed_def list_all_iff)
  have inc: "scoresWellFormed
      (AList.update c ((case map_of t c of Some v \<Rightarrow> if v = 0 then 0 else v | None \<Rightarrow> 0) + 1) t)"
    if "scoresWellFormed t" for t c
    using that nonneg[of t c] by (intro scoresWellFormed_update) (auto split: option.splits)
  have dec: "scoresWellFormed (AList.update c (max 0 (the (map_of t c) - 1)) t)"
    if "scoresWellFormed t" for t c
    using that by (intro scoresWellFormed_update) auto
  have err: "scoresInv (send w m s)" for w m using assms(1) by (simp add: scoresInv_def send_def)
  show ?thesis
  proof (cases pl)
    case Nullish
    then show ?thesis using assms(2) by (simp add: handlePlacePixel_def)
  next
    case (Fields jx jy)
    show ?thesis
    proof (cases "\<exists>x y. jx = JNum x \<and> jy = JNum y")
      case False
      then have "s' = send (ws sess) (ErrorMsg ''Invalid coordinates.'') s"
        using assms(2) Fields by (auto simp: handlePlacePixel_def split: json.splits)
      then show ?thesis using err by simp
    next
      case True
      then obtain x y where xy: "jx = JNum x" "jy = JNum y" by blast
      show ?thesis
      proof (cases "x < 0 \<or> x \<ge> of_nat CANVAS_WIDTH \<or> y < 0 \<or> y \<ge> of_nat CANVAS_HEIGHT")
        case True
        then have "s' = send (ws sess) (ErrorMsg ''Invalid coordinates.'') s"
          using assms(2) Fields xy by (auto simp: handlePlacePixel_def)
        then show ?thesis using err by simp
      next
        case valid: False
        show ?thesis
        proof (cases "now - lastPlacement sess < COOLDOWN_MS")
          case True
          then have "s' = s" using assms(2) Fields xy valid by (auto simp: handlePlacePixel_def)
          then show ?thesis using assms(1) by simp
        next
          case cool: False
          then obtain r where r: "rowAt (canvasState s) y = Some r"
            using assms(2) Fields xy valid
            by (auto simp: handlePlacePixel_def split: option.splits)
          show ?thesis
          proof (cases "r x = Some (color sess)")
            case True
            then have "s' = s" using assms(2) Fields xy valid cool r
              by (auto simp: handlePlacePixel_def)
            then show ?thesis using assms(1) by simp
          next
            case diff: False
            have "scores s' = incrementNew (color sess) (decrementOld (r x) (scores s))"
              and "stored_scores (store s') = Some (scores s')"
              using assms(2) Fields xy valid cool r diff
              by (auto simp: handlePlacePixel_def Let_def saveState_def broadcast_fields)
            then show ?thesis
              using inc[OF dec[OF wf]] inc[OF wf]
              by (auto simp: scoresInv_def incrementNew_def decrementOld_def)
          qed
        qed
      qed
    qed
  qed
qed

lemma scoresInv_onMessage: "scoresInv s \<Longrightarrow> scoresInv (onMessage broken w req now s)"
proof -
  assume a: "scoresInv s"
  have err: "scoresInv (send w m s)" for m using a by (simp add: scoresInv_def send_def)
  show ?thesis
  proof (cases "heap s w")
    case None
    then show ?thesis using a by (simp add: onMessage_def)
  next
    case (Some sess)
    show ?thesis
    proof (cases req)
      case Malformed
      then show ?thesis using Some err by (simp add: onMessage_def)
    next
      case (Request ty pl)
      show ?thesis
      proof (cases "ty = JStr ''placePixel'' \<and> gameStarted s \<and> \<not> gameOver s")
        case False
        then show ?thesis using Some Request a by (auto simp: onMessage_def)
      next
        case True
        show ?thesis
        proof (cases "handlePlacePixel broken sess pl now s")
          case (Inl e)
          then show ?thesis using Some Request True err by (simp add: onMessage_def)
        next
          case (Inr s')
          then show ?thesis
            using Some Request True scoresInv_handlePlacePixel[OF a Inr]
            by (simp add: onMessage_def)
        qed
      qed
    qed
  qed
qed

lemma scoresInv_step: "scoresInv s \<Longrightarrow> scoresInv (step e s)"
proof (cases e)
  case Reactivate
  then show "scoresInv s \<Longrightarrow> ?thesis"
    by (auto simp: scoresInv_def newGameRoom_def loadState_def constructed_def startTimer_def
        Let_def scoresWellFormed_def)
qed (simp_all add: scoresInv_fetch scoresInv_onMessage scoresInv_close scoresInv_timerTick)

lemma reachable_scoresInv: "reachable s \<Longrightarrow> scoresInv s"
proof (induction rule: reachable.induct)
  case (first_activation rid)
  show ?case
    by (simp add: scoresInv_def newGameRoom_def loadState_def constructed_def emptyStorage_def
        Let_def scoresWellFormed_def)
next
  case (after_event s e)
  then show ?case by (simp add: scoresInv_step)
qed

text \<open>
  Claim C2. In every reachable state the score object is well formed (each colour once, no
  negative score), and \<^verbatim>\<open>endGame\<close> sends every session the message \<open>GameOver\<close>
  with \<open>finalWinner\<close> of the score object. That winner is a colour \<open>c\<close> exactly when \<open>c\<close>
  has a score that every other colour stays strictly below; when the object has an entry,
  the winner is null exactly when two different colours share a score that no entry
  exceeds. The two examples of the specification: \<open>{red:5, blue:5, green:3}\<close> gives
  null, \<open>{red:6, blue:5}\<close> gives red.
\<close>

theorem endGame_winnerColor:
  assumes "reachable s"
  shows "scoresWellFormed (scores s)
       \<and> wire (endGame broken s) =
           wire s @ map (\<lambda>r. if broken r
                              then SendFailed r (GameOver (finalWinner (scores s)) (scores s))
                              else Sent r (GameOver (finalWinner (scores s)) (scores s)))
                      (sessions s)
       \<and> (\<forall>c. finalWinner (scores s) = Some c \<longleftrightarrow>
               (\<exists>k. (c, k) \<in> set (scores s)
                    \<and> (\<forall>e \<in> set (scores s). fst e \<noteq> c \<longrightarrow> snd e < k)))
       \<and> (scores s \<noteq> [] \<longrightarrow>
            (finalWinner (scores s) = None \<longleftrightarrow>
               (\<exists>c1 c2 k. c1 \<noteq> c2 \<and> (c1, k) \<in> set (scores s) \<and> (c2, k) \<in> set (scores s)
                   \<and> (\<forall>e \<in> set (scores s). snd e \<le> k))))
       \<and> finalWinner [(''red'', 5), (''blue'', 5), (''green'', 3)] = None
       \<and> finalWinner [(''red'', 6), (''blue'', 5)] = Some ''red''"
proof -
  have wf: "scoresWellFormed (scores s)"
    using reachable_scoresInv[OF assms] by (simp add: scoresInv_def)
  have "finalWinner [(''red'', 5), (''blue'', 5), (''green'', 3)] = None"
    by (simp add: finalWinner_def)
  moreover have "finalWinner [(''red'', 6), (''blue'', 5)] = Some ''red''"
    by (simp add: finalWinner_def)
  ultimately show ?thesis
    using wf endGame_wire[of broken s] finalWinner_Some[OF wf] finalWinner_None[OF wf]
    by blast
qed

section \<open>The initial canvas\<close>

lemma length_initializeRows: "length (initializeRows n) = n"
  by (induction n) auto

lemma nth_initializeRows: "i < n \<Longrightarrow> initializeRows n ! i = initializeRow CANVAS_WIDTH"
  by (induction n) (auto simp: nth_append length_initializeRows less_Suc_eq)

lemma initializeRow_apply:
  "initializeRow n k =
     (if 0 \<le> k \<and> k = of_int \<lfloor>k\<rfloor> \<and> nat \<lfloor>k\<rfloor> < n then Some WHITE else None)"
proof (induction n)
  case 0
  show ?case by simp
next
  case (Suc n)
  show ?case
  proof (cases "k = of_nat n")
    case True
    then show ?thesis by simp
  next
    case False
    have "nat \<lfloor>k\<rfloor> \<noteq> n" if "0 \<le> k" "k = of_int \<lfloor>k\<rfloor>"
    proof
      assume "nat \<lfloor>k\<rfloor> = n"
      then have "of_nat n = (of_int \<lfloor>k\<rfloor> :: rat)" using that(1) by auto
      then show False using False that(2) by simp
    qed
    then show ?thesis using False Suc by (auto simp: less_Suc_eq)
  qed
qed

lemma length_initializeCanvas: "length initializeCanvas = 100"
  by (simp add: initializeCanvas_def CANVAS_HEIGHT_def length_initializeRows)

lemma nth_initializeCanvas: "i < 100 \<Longrightarrow> initializeCanvas ! i = initializeRow CANVAS_WIDTH"
  by (simp add: initializeCanvas_def CANVAS_HEIGHT_def nth_initializeRows)

lemma unsetInRow_initial: "unsetInRow (initializeRow CANVAS_WIDTH) = 100"
proof -
  have "filter (\<lambda>x. initializeRow CANVAS_WIDTH (of_nat x) = Some WHITE) [0..<CANVAS_WIDTH]
        = [0..<CANVAS_WIDTH]"
    by (rule filter_True) (simp add: initializeRow_apply)
  then show ?thesis by (simp add: unsetInRow_def CANVAS_WIDTH_def)
qed

lemma initializeRows_replicate: "initializeRows n = replicate n (initializeRow CANVAS_WIDTH)"
  by (induction n) (auto simp: replicate_append_same)

lemma unsetCells_initial: "unsetCells initializeCanvas = 10000"
  by (simp add: unsetCells_def initializeCanvas_def initializeRows_replicate
      unsetInRow_initial sum_list_replicate CANVAS_HEIGHT_def)

section \<open>Accounting of scores and unset cells\<close>

lemma unsetInRow_colour: "unsetInRow r = colourInRow WHITE r"
  by (simp add: unsetInRow_def colourInRow_def)

lemma unsetCells_colour: "unsetCells cv = colourCells WHITE cv"
proof -
  have "unsetInRow = colourInRow WHITE" by (rule ext) (rule unsetInRow_colour)
  then show ?thesis by (simp add: unsetCells_def colourCells_def)
qed

lemma colourInRow_cell:
  assumes "x0 < CANVAS_WIDTH"
  shows "colourInRow e (r(of_nat x0 \<mapsto> c)) + (if r (of_nat x0) = Some e then 1 else 0)
         = colourInRow e r + (if c = e then 1 else 0)"
proof -
  define P where "P = (\<lambda>x. r (rat_of_nat x) = Some e)"
  define P' where "P' = (\<lambda>x. (r(of_nat x0 \<mapsto> c)) (rat_of_nat x) = Some e)"
  have split: "[0..<CANVAS_WIDTH] = [0..<x0] @ x0 # [Suc x0..<CANVAS_WIDTH]"
  proof -
    have "[0..<x0 + (CANVAS_WIDTH - x0)] = [0..<x0] @ [x0..<x0 + (CANVAS_WIDTH - x0)]"
      by (rule upt_add_eq_append) simp
    moreover have "[x0..<CANVAS_WIDTH] = x0 # [Suc x0..<CANVAS_WIDTH]"
      using assms by (rule upt_conv_Cons)
    ultimately show ?thesis using assms by simp
  qed
  have a: "filter P' [0..<x0] = filter P [0..<x0]"
    by (intro filter_cong) (auto simp: P_def P'_def)
  have b: "filter P' [Suc x0..<CANVAS_WIDTH] = filter P [Suc x0..<CANVAS_WIDTH]"
    by (intro filter_cong) (auto simp: P_def P'_def)
  have c: "P' x0 \<longleftrightarrow> c = e" "P x0 \<longleftrightarrow> r (of_nat x0) = Some e"
    by (simp_all add: P_def P'_def)
  have "length (filter P' [0..<CANVAS_WIDTH]) + (if P x0 then 1 else 0)
        = length (filter P [0..<CANVAS_WIDTH]) + (if P' x0 then 1 else 0)"
    unfolding split by (simp add: a b)
  moreover have "colourInRow e (r(of_nat x0 \<mapsto> c)) = length (filter P' [0..<CANVAS_WIDTH])"
    by (simp add: colourInRow_def P'_def)
  moreover have "colourInRow e r = length (filter P [0..<CANVAS_WIDTH])"
    by (simp add: colourInRow_def P_def)
  ultimately show ?thesis
    by (simp only: c)
qed

lemma colourCells_update:
  assumes "i < length cv"
  shows "colourCells e (cv[i := r']) + colourInRow e (cv ! i)
         = colourCells e cv + colourInRow e r'"
proof -
  have le: "colourInRow e (cv ! i) \<le> sum_list (map (colourInRow e) cv)"
    using assms elem_le_sum_list[of i "map (colourInRow e) cv"] by simp
  have "colourCells e (cv[i := r'])
        = sum_list ((map (colourInRow e) cv)[i := colourInRow e r'])"
    by (simp add: colourCells_def map_update)
  also have "\<dots> = sum_list (map (colourInRow e) cv) + colourInRow e r'
                   - (map (colourInRow e) cv) ! i"
    using assms by (simp add: sum_list_update)
  finally show ?thesis using le assms by (simp add: colourCells_def)
qed

text \<open>Painting the cell \<open>(x0, i)\<close>, which held \<open>d\<close>, with \<open>c\<close>.\<close>

lemma colourCells_paint:
  assumes "i < length cv" and "x0 < CANVAS_WIDTH" and "(cv ! i) (of_nat x0) = Some d"
  shows "colourCells e (cv[i := (cv ! i)(of_nat x0 \<mapsto> c)]) + (if d = e then 1 else 0)
         = colourCells e cv + (if c = e then 1 else 0)"
  using colourCells_update[OF assms(1), of e "(cv ! i)(of_nat x0 \<mapsto> c)"]
    colourInRow_cell[OF assms(2), of e "cv ! i" c] assms(3)
  by (simp split: if_splits)

lemma scoreOf_update: "scoreOf (AList.update k v t) c = (if c = k then v else scoreOf t c)"
  by (simp add: scoreOf_def update_conv')

lemma scoreSum_update: "scoreSum (AList.update k v t) = scoreSum t - scoreOf t k + v"
  by (induction t) (auto simp: scoreSum_def scoreOf_def)


lemma accounted_paint:
  assumes acc: "accounted cv t"
    and i: "i < CANVAS_HEIGHT" and x0: "x0 < CANVAS_WIDTH"
    and old: "(cv ! i) (of_nat x0) = oldColor" and diff: "oldColor \<noteq> Some c"
    and c: "c \<noteq> WHITE"
  shows "accounted (cv[i := (cv ! i)(of_nat x0 \<mapsto> c)])
           (incrementNew c (decrementOld oldColor t))"
    (is "accounted ?cv' _")
proof -
  have len: "length cv = CANVAS_HEIGHT" and il: "i < length cv"
    using acc i by (simp_all add: accounted_def)
  have "(cv ! i) (of_nat x0) \<noteq> None"
    using acc i x0 by (simp add: accounted_def)
  then obtain d where "(cv ! i) (of_nat x0) = Some d" by blast
  then have d: "oldColor = Some d" "d \<noteq> c"
    using old diff by auto
  have cell: "(cv ! i) (of_nat x0) = Some d" using old d by simp
  note paint = colourCells_paint[OF il x0 cell, of _ c]
  have bound: "\<And>e. e \<noteq> WHITE \<Longrightarrow> int (colourCells e cv) \<le> scoreOf t e"
    and total: "scoreSum t + int (unsetCells cv) = int (CANVAS_WIDTH * CANVAS_HEIGHT)"
    using acc by (simp_all add: accounted_def)
  have inc: "incrementNew c u = AList.update c (scoreOf u c + 1) u" for u
    by (simp add: incrementNew_def scoreOf_def split: option.splits)
  have defined: "\<forall>j < CANVAS_HEIGHT. \<forall>x < CANVAS_WIDTH. (?cv' ! j) (of_nat x) \<noteq> None"
    using acc il by (auto simp: accounted_def nth_list_update)
  show ?thesis
  proof (cases "d = WHITE")
    case True
    then have t1: "decrementOld oldColor t = t" using d by (simp add: decrementOld_def)
    have cnt: "colourCells e ?cv' = colourCells e cv + (if c = e then 1 else 0)"
      if "e \<noteq> WHITE" for e
      using paint[of e] True that by (simp split: if_splits)
    have uns: "unsetCells ?cv' + 1 = unsetCells cv"
      using paint[of WHITE] True c by (simp add: unsetCells_colour)
    have "scoreSum (AList.update c (scoreOf t c + 1) t) + int (unsetCells ?cv')
          = int (CANVAS_WIDTH * CANVAS_HEIGHT)"
      using total uns by (simp add: scoreSum_update)
    moreover have "\<forall>e. e \<noteq> WHITE \<longrightarrow>
        int (colourCells e ?cv') \<le> scoreOf (AList.update c (scoreOf t c + 1) t) e"
      using bound cnt by (auto simp: scoreOf_update)
    ultimately show ?thesis
      using len defined unfolding t1 inc accounted_def by simp
  next
    case False
    have "1 \<le> colourCells d cv"
      using paint[of d] d(2) by (simp split: if_splits)
    then have sd: "1 \<le> scoreOf t d" using bound[OF False] by linarith
    then obtain v where v: "map_of t d = Some v" "1 \<le> v"
      by (auto simp: scoreOf_def split: option.splits)
    have t1: "decrementOld oldColor t = AList.update d (v - 1) t"
      using d False v by (simp add: decrementOld_def scoreTruthy_def propertyKey_def)
    have s1: "scoreOf (AList.update d (v - 1) t) c = scoreOf t c"
      using d(2) by (simp add: scoreOf_update)
    have sv: "scoreOf t d = v" using v by (simp add: scoreOf_def)
    have uns: "unsetCells ?cv' = unsetCells cv"
      using paint[of WHITE] False c by (simp add: unsetCells_colour)
    have "scoreSum (AList.update c (scoreOf t c + 1) (AList.update d (v - 1) t))
            + int (unsetCells ?cv') = int (CANVAS_WIDTH * CANVAS_HEIGHT)"
      using total uns sv s1 by (simp add: scoreSum_update)
    moreover have "\<forall>e. e \<noteq> WHITE \<longrightarrow> int (colourCells e ?cv')
          \<le> scoreOf (AList.update c (scoreOf t c + 1) (AList.update d (v - 1) t)) e"
    proof (intro allI impI)
      fix e assume e: "e \<noteq> WHITE"
      show "int (colourCells e ?cv')
          \<le> scoreOf (AList.update c (scoreOf t c + 1) (AList.update d (v - 1) t)) e"
        using paint[of e] bound[OF e] sv d(2)
        by (auto simp: scoreOf_update split: if_splits)
    qed
    ultimately show ?thesis
      using len defined unfolding t1 inc s1 accounted_def by simp
  qed
qed


lemma accountInv_same:
  assumes "accountInv s" and "canvasState s' = canvasState s" and "scores s' = scores s"
    and "stored_canvasState (store s') = stored_canvasState (store s)
           \<and> stored_scores (store s') = stored_scores (store s)
         \<or> stored_canvasState (store s') = Some (canvasState s)
           \<and> stored_scores (store s') = Some (scores s)"
  shows "accountInv s'"
  using assms by (auto simp: accountInv_def)

lemma accountInv_startGame:
  assumes "accountInv s"
  shows "accountInv (startGame broken s)"
  using assms
  by (rule accountInv_same) (simp_all add: startGame_def startTimer_def Let_def broadcast_fields)

lemma endGame_canvas:
  "canvasState (endGame broken s) = canvasState s"
  "stored_canvasState (store (endGame broken s)) = Some (canvasState s)"
  by (simp_all add: endGame_def stopTimer_def saveState_def Let_def broadcast_fields)

lemma accountInv_timerTick:
  assumes "accountInv s"
  shows "accountInv (timerTick broken s)"
  using assms
  by (rule accountInv_same)
    (simp_all add: timerTick_def endGame_scores endGame_canvas saveState_def Let_def
      broadcast_fields)

lemma accountInv_close:
  assumes "accountInv s"
  shows "accountInv (closeOrErrorHandler w s)"
  using assms
  by (rule accountInv_same)
    (simp_all add: closeOrErrorHandler_def removeSession_def stopTimer_def Let_def)

lemma accounted_zero_entry:
  assumes "accounted cv t" and "\<not> scoreTruthy t col"
  shows "accounted cv (AList.update col 0 t)"
proof -
  have z: "scoreOf t col = 0"
    using assms(2) by (auto simp: scoreTruthy_def scoreOf_def split: option.splits)
  then have "scoreOf (AList.update col 0 t) e = scoreOf t e" for e
    by (simp add: scoreOf_update)
  moreover have "scoreSum (AList.update col 0 t) = scoreSum t"
    using z by (simp add: scoreSum_update)
  ultimately show ?thesis using assms(1) by (simp add: accounted_def)
qed

lemma accountInv_handleSession:
  assumes "accountInv s"
  shows "accountInv (handleSession broken w pid col s)"
proof -
  have keep: "accountInv (s\<lparr>scores := AList.update col 0 (scores s)\<rparr>)"
    if "\<not> scoreTruthy (scores s) col"
    using assms accounted_zero_entry[OF _ that] by (simp add: accountInv_def)
  have reject: "accountInv (closeWs w c r (send w m s))" for c r m
    using assms by (simp add: accountInv_def closeWs_def send_def)
  have admit: "accountInv (handleSession broken w pid col s)"
    if "\<not> MAX_PLAYERS_PER_ROOM \<le> length (sessions s)" "\<not> gameOver s"
  proof (cases "scoreTruthy (scores s) col")
    case True
    have "accountInv s" by (rule assms)
    then show ?thesis
      by (rule accountInv_same)
        (simp_all add: that True handleSession_def registerSession_def Let_def send_def
          broadcast_fields startGame_def startTimer_def)
  next
    case False
    from keep[OF False] show ?thesis
      by (rule accountInv_same)
        (simp_all add: that False handleSession_def registerSession_def Let_def send_def
          broadcast_fields startGame_def startTimer_def)
  qed
  show ?thesis
  proof (cases "MAX_PLAYERS_PER_ROOM \<le> length (sessions s) \<or> gameOver s")
    case True
    then show ?thesis using reject by (auto simp: handleSession_def)
  next
    case False
    then show ?thesis using admit by simp
  qed
qed

lemma accountInv_fetch:
  assumes "accountInv s"
  shows "accountInv (snd (fetch broken upgrade pidParam uuid rnd s))"
proof -
  have "accountInv (s\<lparr>nextWs := Suc (nextWs s)\<rparr>)" using assms by (simp add: accountInv_def)
  then show ?thesis using assms by (simp add: fetch_def Let_def accountInv_handleSession)
qed

lemma handlePlacePixel_accounting:
  assumes "handlePlacePixel broken sess pl now s = Inr s'"
  shows "(canvasState s' = canvasState s \<and> scores s' = scores s \<and> store s' = store s)
       \<or> (\<exists>x y r. pl = Fields (JNum x) (JNum y) \<and> 0 \<le> x \<and> x < of_nat CANVAS_WIDTH
            \<and> rowAt (canvasState s) y = Some r \<and> r x \<noteq> Some (color sess)
            \<and> canvasState s' = (canvasState s)[nat \<lfloor>y\<rfloor> := r(x \<mapsto> color sess)]
            \<and> scores s' = incrementNew (color sess) (decrementOld (r x) (scores s))
            \<and> stored_canvasState (store s') = Some (canvasState s')
            \<and> stored_scores (store s') = Some (scores s'))"
proof (cases pl)
  case Nullish
  then show ?thesis using assms by (simp add: handlePlacePixel_def)
next
  case (Fields jx jy)
  have err: "canvasState (send w m s) = canvasState s \<and> scores (send w m s) = scores s
      \<and> store (send w m s) = store s" for w m by (simp add: send_def)
  show ?thesis
  proof (cases "\<exists>x y. jx = JNum x \<and> jy = JNum y")
    case False
    then have "s' = send (ws sess) (ErrorMsg ''Invalid coordinates.'') s"
      using assms Fields by (auto simp: handlePlacePixel_def split: json.splits)
    then show ?thesis using err by simp
  next
    case True
    then obtain x y where xy: "jx = JNum x" "jy = JNum y" by blast
    show ?thesis
    proof (cases "x < 0 \<or> x \<ge> of_nat CANVAS_WIDTH \<or> y < 0 \<or> y \<ge> of_nat CANVAS_HEIGHT")
      case True
      then have "s' = send (ws sess) (ErrorMsg ''Invalid coordinates.'') s"
        using assms Fields xy by (auto simp: handlePlacePixel_def)
      then show ?thesis using err by simp
    next
      case valid: False
      show ?thesis
      proof (cases "now - lastPlacement sess < COOLDOWN_MS")
        case True
        then have "s' = s" using assms Fields xy valid by (auto simp: handlePlacePixel_def)
        then show ?thesis by simp
      next
        case cool: False
        then obtain r where r: "rowAt (canvasState s) y = Some r"
          using assms Fields xy valid by (auto simp: handlePlacePixel_def split: option.splits)
        show ?thesis
        proof (cases "r x = Some (color sess)")
          case True
          then have "s' = s" using assms Fields xy valid cool r
            by (auto simp: handlePlacePixel_def)
          then show ?thesis by simp
        next
          case False
          then show ?thesis
            using assms Fields xy valid cool r
            by (auto simp: handlePlacePixel_def Let_def saveState_def broadcast_fields)
        qed
      qed
    qed
  qed
qed


lemma whole_index:
  fixes x :: rat
  assumes "0 \<le> x" and "x < of_nat n" and "x = of_int \<lfloor>x\<rfloor>"
  shows "x = of_nat (nat \<lfloor>x\<rfloor>) \<and> nat \<lfloor>x\<rfloor> < n"
proof -
  have "0 \<le> \<lfloor>x\<rfloor>" using assms(1) by simp
  then have "(of_nat (nat \<lfloor>x\<rfloor>) :: rat) = of_int \<lfloor>x\<rfloor>" by simp
  with assms(3) have eq: "x = of_nat (nat \<lfloor>x\<rfloor>)" by metis
  with assms(2) have "(of_nat (nat \<lfloor>x\<rfloor>) :: rat) < of_nat n" by metis
  then have "nat \<lfloor>x\<rfloor> < n" by (simp only: of_nat_less_iff)
  then show ?thesis using eq by blast
qed

lemma accountInv_handlePlacePixel:
  assumes inv: "accountInv s" and white: "color sess \<noteq> WHITE"
    and whole: "\<And>x jy. pl = Fields (JNum x) jy \<Longrightarrow> x = of_int \<lfloor>x\<rfloor>"
    and run: "handlePlacePixel broken sess pl now s = Inr s'"
  shows "accountInv s'"
  using handlePlacePixel_accounting[OF run]
proof (elim disjE exE conjE)
  assume "canvasState s' = canvasState s" "scores s' = scores s" "store s' = store s"
  then show ?thesis using inv by (simp add: accountInv_def)
next
  fix x y r
  assume h: "pl = Fields (JNum x) (JNum y)" "0 \<le> x" "x < of_nat CANVAS_WIDTH"
    "rowAt (canvasState s) y = Some r" "r x \<noteq> Some (color sess)"
    "canvasState s' = (canvasState s)[nat \<lfloor>y\<rfloor> := r(x \<mapsto> color sess)]"
    "scores s' = incrementNew (color sess) (decrementOld (r x) (scores s))"
    "stored_canvasState (store s') = Some (canvasState s')"
    "stored_scores (store s') = Some (scores s')"
  have acc: "accounted (canvasState s) (scores s)" using inv by (simp add: accountInv_def)
  from whole_index[OF h(2,3) whole[OF h(1)]]
  have x: "x = of_nat (nat \<lfloor>x\<rfloor>)" "nat \<lfloor>x\<rfloor> < CANVAS_WIDTH" by simp_all
  from rowAt_SomeD[OF h(4)]
  have i: "nat \<lfloor>y\<rfloor> < CANVAS_HEIGHT" "r = canvasState s ! nat \<lfloor>y\<rfloor>"
    using acc by (simp_all add: accounted_def)
  have "accounted ((canvasState s)[nat \<lfloor>y\<rfloor> :=
            (canvasState s ! nat \<lfloor>y\<rfloor>)(of_nat (nat \<lfloor>x\<rfloor>) \<mapsto> color sess)])
          (incrementNew (color sess) (decrementOld (r x) (scores s)))"
  proof (rule accounted_paint[OF acc i(1) x(2) _ _ white])
    show "(canvasState s ! nat \<lfloor>y\<rfloor>) (of_nat (nat \<lfloor>x\<rfloor>)) = r x"
      using i(2) x(1) by simp
    show "r x \<noteq> Some (color sess)" by (rule h(5))
  qed
  then have "accounted (canvasState s') (scores s')"
    using h(6,7) i(2) x(1) by simp
  then show ?thesis using h(8,9) by (simp add: accountInv_def)
qed

lemma accountInv_onMessage:
  assumes inv: "accountInv s" and rinv: "roomInv s"
    and whole: "wholeColumn (Message broken w req now)"
  shows "accountInv (onMessage broken w req now s)"
proof (cases "heap s w")
  case None
  then show ?thesis using inv by (simp add: onMessage_def)
next
  case (Some sess)
  have white: "color sess \<noteq> WHITE"
    using rinv Some by (auto simp: roomInv_def dest: palette_not_white)
  have err: "accountInv (send w m s)" for m using inv by (simp add: accountInv_def send_def)
  show ?thesis
  proof (cases req)
    case Malformed
    then show ?thesis using Some err by (simp add: onMessage_def)
  next
    case (Request ty pl)
    have wh: "x = of_int \<lfloor>x\<rfloor>" if "pl = Fields (JNum x) jy" for x jy
      using whole Request that by simp
    show ?thesis
    proof (cases "ty = JStr ''placePixel'' \<and> gameStarted s \<and> \<not> gameOver s")
      case False
      then show ?thesis using Some Request inv by (auto simp: onMessage_def)
    next
      case True
      show ?thesis
      proof (cases "handlePlacePixel broken sess pl now s")
        case (Inl e)
        then show ?thesis using Some Request True err by (simp add: onMessage_def)
      next
        case (Inr s')
        then show ?thesis
          using Some Request True accountInv_handlePlacePixel[OF inv white wh Inr]
          by (simp add: onMessage_def)
      qed
    qed
  qed
qed

lemma colourInRow_initial: "c \<noteq> WHITE \<Longrightarrow> colourInRow c (initializeRow CANVAS_WIDTH) = 0"
  by (simp add: colourInRow_def initializeRow_apply)

lemma accounted_initial: "accounted initializeCanvas []"
proof -
  have "colourCells c initializeCanvas = 0" if "c \<noteq> WHITE" for c
    using that
    by (simp add: colourCells_def initializeCanvas_def initializeRows_replicate
        colourInRow_initial)
  moreover have "(initializeCanvas ! i) (of_nat x) \<noteq> None"
    if "i < CANVAS_HEIGHT" "x < CANVAS_WIDTH" for i x
    using that by (simp add: initializeCanvas_def nth_initializeRows initializeRow_apply)
  moreover have "length initializeCanvas = CANVAS_HEIGHT"
    by (simp add: initializeCanvas_def length_initializeRows)
  moreover have "scoreSum [] + int (unsetCells initializeCanvas)
      = int (CANVAS_WIDTH * CANVAS_HEIGHT)"
    by (simp add: unsetCells_initial scoreSum_def CANVAS_WIDTH_def CANVAS_HEIGHT_def)
  ultimately show ?thesis
    unfolding accounted_def by (simp add: scoreOf_def)
qed

lemma accountInv_newGameRoom:
  assumes "accountInv s"
  shows "accountInv (newGameRoom rid (store s))"
  using assms accounted_initial
  by (auto simp: accountInv_def newGameRoom_def loadState_def constructed_def startTimer_def
      Let_def)

lemma accountInv_first: "accountInv (newGameRoom rid emptyStorage)"
  using accounted_initial
  by (simp add: accountInv_def newGameRoom_def loadState_def constructed_def emptyStorage_def
      Let_def)

lemma accountInv_step:
  assumes "accountInv s" and "roomInv s" and "wholeColumn e"
  shows "accountInv (step e s)"
proof (cases e)
  case (Connect broken upgrade pidParam uuid rnd)
  then show ?thesis using assms(1) by (simp add: accountInv_fetch)
next
  case (Message broken w req now)
  then show ?thesis using assms by (simp add: accountInv_onMessage)
next
  case (CloseOrError w)
  then show ?thesis using assms(1) by (simp add: accountInv_close)
next
  case (Tick broken)
  then show ?thesis using assms(1) by (simp add: accountInv_timerTick)
next
  case Reactivate
  then show ?thesis using assms(1) by (simp add: accountInv_newGameRoom)
qed

text \<open>
  In \<^verbatim>\<open>functions/gameroom.mjs\<close>: along any run of events from the first activation in
  which no placement carries a column \<open>x\<close> that is not a whole number, the scores and the
  unset cells add up to the area of the grid.
\<close>

lemma accounting_with_whole_columns:
  assumes "run es (newGameRoom rid emptyStorage) = Some s" and "list_all wholeColumn es"
  shows "scoreSum (scores s) + int (unsetCells (canvasState s))
         = int (CANVAS_WIDTH * CANVAS_HEIGHT)"
proof -
  have "accountInv s'" if "reachable s0" "accountInv s0" "run es s0 = Some s'" for s0 s'
    using that assms(2)
  proof (induction es arbitrary: s0)
    case Nil
    then show ?case by simp
  next
    case (Cons e es)
    from Cons.prems(3) have en: "enabled e s0" and rest: "run es (step e s0) = Some s'"
      by (auto split: if_splits)
    have "reachable (step e s0)" using Cons.prems(1) en by (rule reachable.after_event)
    moreover have "accountInv (step e s0)"
      using Cons.prems(2,4) reachable_roomInv[OF Cons.prems(1)] by (simp add: accountInv_step)
    ultimately show ?case using Cons.IH rest Cons.prems(4) by simp
  qed
  from this[OF reachable.first_activation accountInv_first assms(1)]
  show ?thesis by (simp add: accountInv_def accounted_def)
qed

section \<open>The sample run, evaluated\<close>

lemma room0_fields:
  "sessions room0 = []" "heap room0 = Map.empty" "nextWs room0 = 0"
  "canvasState room0 = initializeCanvas" "scores room0 = []"
  "timerInterval room0 = False" "timeLeft room0 = 300"
  "gameStarted room0 = False" "gameOver room0 = False"
  "store room0 = emptyStorage" "wire room0 = []" "roomId room0 = ''default-room''"
  by (simp_all add: room0_def newGameRoom_def loadState_def constructed_def emptyStorage_def
      Let_def GAME_DURATION_SECONDS_def)

lemma first_colour: "assignColor rnd (s\<lparr>nextWs := n\<rparr>) = ''#FF0000''" if "sessions s = []"
  using that by (simp add: assignColor_def usedColors_def PLAYER_COLORS_def)

lemma room1_fields:
  "sessions room1 = [0]"
  "heap room1 = [0 \<mapsto> \<lparr>ws = 0, playerId = ''p1'', color = ''#FF0000'', lastPlacement = 0\<rparr>]"
  "nextWs room1 = 1"
  "canvasState room1 = initializeCanvas" "scores room1 = [(''#FF0000'', 0)]"
  "timerInterval room1 = False" "timeLeft room1 = 300"
  "gameStarted room1 = False" "gameOver room1 = False"
  "store room1 = emptyStorage" "roomId room1 = ''default-room''"
  by (simp_all add: room1_def fetch_def handleSession_def registerSession_def Let_def
      first_colour room0_fields MAX_PLAYERS_PER_ROOM_def MIN_PLAYERS_TO_START_def
      scoreTruthy_def send_def broadcast_eq allDelivered_def)

lemma second_colour:
  "assignColor rnd (room1\<lparr>nextWs := n\<rparr>) = ''#00FF00''"
  by (simp add: assignColor_def usedColors_def PLAYER_COLORS_def room1_fields)

lemma room2_fields:
  "sessions room2 = [0, 1]"
  "heap room2 = [0 \<mapsto> \<lparr>ws = 0, playerId = ''p1'', color = ''#FF0000'', lastPlacement = 0\<rparr>,
                 1 \<mapsto> \<lparr>ws = 1, playerId = ''p2'', color = ''#00FF00'', lastPlacement = 0\<rparr>]"
  "nextWs room2 = 2"
  "canvasState room2 = initializeCanvas" "scores room2 = [(''#FF0000'', 0), (''#00FF00'', 0)]"
  "timerInterval room2 = True" "timeLeft room2 = 300"
  "gameStarted room2 = True" "gameOver room2 = False"
  "store room2 = emptyStorage\<lparr>stored_gameStarted := Some True\<rparr>"
  by (simp_all add: room2_def fetch_def handleSession_def registerSession_def Let_def
      second_colour room1_fields MAX_PLAYERS_PER_ROOM_def MIN_PLAYERS_TO_START_def
      scoreTruthy_def send_def broadcast_eq allDelivered_def startGame_def startTimer_def
      GAME_DURATION_SECONDS_def)


lemma unsetInRow_other_key:
  assumes "\<And>x. x < CANVAS_WIDTH \<Longrightarrow> of_nat x \<noteq> k"
  shows "unsetInRow (r(k \<mapsto> c)) = unsetInRow r"
proof -
  have "filter (\<lambda>x. (r(k \<mapsto> c)) (of_nat x) = Some WHITE) [0..<CANVAS_WIDTH]
        = filter (\<lambda>x. r (of_nat x) = Some WHITE) [0..<CANVAS_WIDTH]"
    using assms by (intro filter_cong) auto
  then show ?thesis by (simp add: unsetInRow_def)
qed

lemma unsetInRow_cell:
  assumes "x0 < CANVAS_WIDTH"
  shows "unsetInRow (r(of_nat x0 \<mapsto> c)) + (if r (of_nat x0) = Some WHITE then 1 else 0)
         = unsetInRow r + (if c = WHITE then 1 else 0)"
proof -
  define P where "P = (\<lambda>x. r (rat_of_nat x) = Some WHITE)"
  define P' where "P' = (\<lambda>x. (r(of_nat x0 \<mapsto> c)) (rat_of_nat x) = Some WHITE)"
  have split: "[0..<CANVAS_WIDTH] = [0..<x0] @ x0 # [Suc x0..<CANVAS_WIDTH]"
  proof -
    have "[0..<x0 + (CANVAS_WIDTH - x0)] = [0..<x0] @ [x0..<x0 + (CANVAS_WIDTH - x0)]"
      by (rule upt_add_eq_append) simp
    moreover have "[x0..<CANVAS_WIDTH] = x0 # [Suc x0..<CANVAS_WIDTH]"
      using assms by (rule upt_conv_Cons)
    ultimately show ?thesis using assms by simp
  qed
  have a: "filter P' [0..<x0] = filter P [0..<x0]"
    by (intro filter_cong) (auto simp: P_def P'_def)
  have b: "filter P' [Suc x0..<CANVAS_WIDTH] = filter P [Suc x0..<CANVAS_WIDTH]"
    by (intro filter_cong) (auto simp: P_def P'_def)
  have c: "P' x0 \<longleftrightarrow> c = WHITE" "P x0 \<longleftrightarrow> r (of_nat x0) = Some WHITE"
    by (simp_all add: P_def P'_def)
  have "length (filter P' [0..<CANVAS_WIDTH]) + (if P x0 then 1 else 0)
        = length (filter P [0..<CANVAS_WIDTH]) + (if P' x0 then 1 else 0)"
    unfolding split by (simp add: a b)
  moreover have "unsetInRow (r(of_nat x0 \<mapsto> c)) = length (filter P' [0..<CANVAS_WIDTH])"
    by (simp add: unsetInRow_def P'_def)
  moreover have "unsetInRow r = length (filter P [0..<CANVAS_WIDTH])"
    by (simp add: unsetInRow_def P_def)
  ultimately show ?thesis
    by (simp only: c)
qed

lemma unsetCells_update_eq:
  assumes "i < length cv"
  shows "unsetCells (cv[i := r']) + unsetInRow (cv ! i) = unsetCells cv + unsetInRow r'"
proof -
  have le: "unsetInRow (cv ! i) \<le> sum_list (map unsetInRow cv)"
    using assms elem_le_sum_list[of i "map unsetInRow cv"] by simp
  have "unsetCells (cv[i := r']) = sum_list ((map unsetInRow cv)[i := unsetInRow r'])"
    by (simp add: unsetCells_def map_update)
  also have "\<dots> = sum_list (map unsetInRow cv) + unsetInRow r' - (map unsetInRow cv) ! i"
    using assms by (simp add: sum_list_update)
  finally show ?thesis using le assms by (simp add: unsetCells_def)
qed

lemma room2_heap0:
  "heap room2 0 = Some \<lparr>ws = 0, playerId = ''p1'', color = ''#FF0000'', lastPlacement = 0\<rparr>"
  by (simp add: room2_fields)

lemma room3_fields:
  "canvasState room3 = initializeCanvas[4 := (initializeRow CANVAS_WIDTH)(3 \<mapsto> ''#FF0000'')]"
  "scores room3 = [(''#FF0000'', 1), (''#00FF00'', 0)]"
  "heap room3 0 = Some \<lparr>ws = 0, playerId = ''p1'', color = ''#FF0000'', lastPlacement = 5000\<rparr>"
  "sessions room3 = [0, 1]"
  "gameStarted room3 = True" "gameOver room3 = False"
  "wire room3 = wire room2 @
     [Sent 0 (PixelUpdate 3 4 ''#FF0000'' [(''#FF0000'', 1), (''#00FF00'', 0)]),
      Sent 1 (PixelUpdate 3 4 ''#FF0000'' [(''#FF0000'', 1), (''#00FF00'', 0)])]"
  by (simp_all add: room3_def placePixel_def onMessage_def handlePlacePixel_def room2_fields
      Let_def rowAt_def length_initializeCanvas nth_initializeCanvas initializeRow_apply
      CANVAS_WIDTH_def CANVAS_HEIGHT_def COOLDOWN_MS_def WHITE_def scoreTruthy_def
      propertyKey_def decrementOld_def incrementNew_def broadcast_eq saveState_def
      allDelivered_def)

lemma roomHalf_fields:
  "canvasState roomHalf = initializeCanvas[0 := (initializeRow CANVAS_WIDTH)(3 / 2 \<mapsto> ''#FF0000'')]"
  "scores roomHalf = [(''#FF0000'', 1), (''#00FF00'', 0)]"
  "heap roomHalf 0 = Some \<lparr>ws = 0, playerId = ''p1'', color = ''#FF0000'', lastPlacement = 5000\<rparr>"
  "wire roomHalf = wire room2 @
     [Sent 0 (PixelUpdate (3 / 2) 0 ''#FF0000'' [(''#FF0000'', 1), (''#00FF00'', 0)]),
      Sent 1 (PixelUpdate (3 / 2) 0 ''#FF0000'' [(''#FF0000'', 1), (''#00FF00'', 0)])]"
  by (simp_all add: roomHalf_def placePixel_def onMessage_def handlePlacePixel_def room2_fields
      Let_def rowAt_def length_initializeCanvas nth_initializeCanvas initializeRow_apply
      CANVAS_WIDTH_def CANVAS_HEIGHT_def COOLDOWN_MS_def WHITE_def scoreTruthy_def
      propertyKey_def decrementOld_def incrementNew_def broadcast_eq saveState_def
      allDelivered_def)

lemma half_no_index: "of_nat x \<noteq> (3 / 2 :: rat)"
proof
  assume "of_nat x = (3 / 2 :: rat)"
  then have "(of_nat (2 * x) :: rat) = of_nat 3" by simp
  then have "2 * x = 3" by (simp only: of_nat_eq_iff)
  then show False by arith
qed

lemma unsetCells_roomHalf: "unsetCells (canvasState roomHalf) = 10000"
proof -
  have "unsetInRow ((initializeRow CANVAS_WIDTH)(3 / 2 \<mapsto> ''#FF0000''))
        = unsetInRow (initializeRow CANVAS_WIDTH)"
    by (rule unsetInRow_other_key) (rule half_no_index)
  then show ?thesis
    using unsetCells_update_eq[of 0 initializeCanvas
        "(initializeRow CANVAS_WIDTH)(3 / 2 \<mapsto> ''#FF0000'')"]
    by (simp add: roomHalf_fields length_initializeCanvas nth_initializeCanvas
        unsetCells_initial)
qed

lemma unsetCells_room3: "unsetCells (canvasState room3) = 9999"
proof -
  have "(3::nat) < CANVAS_WIDTH" by (simp add: CANVAS_WIDTH_def)
  from unsetInRow_cell[OF this, of "initializeRow CANVAS_WIDTH" "''#FF0000''"]
  have "unsetInRow ((initializeRow CANVAS_WIDTH)(3 \<mapsto> ''#FF0000'')) + 1 = 100"
    by (simp add: initializeRow_apply unsetInRow_initial WHITE_def \<open>3 < CANVAS_WIDTH\<close>)
  then have "unsetInRow ((initializeRow CANVAS_WIDTH)(3 \<mapsto> ''#FF0000'')) = 99" by simp
  then show ?thesis
    using unsetCells_update_eq[of 4 initializeCanvas
        "(initializeRow CANVAS_WIDTH)(3 \<mapsto> ''#FF0000'')"]
    by (simp add: room3_fields length_initializeCanvas nth_initializeCanvas
      unsetCells_initial unsetInRow_initial)
qed


lemma reachable_room2: "reachable room2"
proof -
  have "reachable room0" unfolding room0_def by (rule reachable.first_activation)
  then have "reachable room1" unfolding room1_def by (rule reachable.after_event) simp
  then show ?thesis unfolding room2_def by (rule reachable.after_event) simp
qed

lemma reachable_room3: "reachable room3"
  unfolding room3_def using reachable_room2
  by (rule reachable.after_event) (simp add: room2_fields)

lemma reachable_roomHalf: "reachable roomHalf"
  unfolding roomHalf_def using reachable_room2
  by (rule reachable.after_event) (simp add: room2_fields)

section \<open>Placement outside a running game\<close>

text \<open>
  Claim C3. One player has joined and the game has not started. The listener of
  \<^verbatim>\<open>functions/gameroom.mjs\<close> returns on the player's \<^verbatim>\<open>placePixel\<close> with the room
  as it was, the trace of the socket included: nothing is mutated, and no error message is
  sent. The listener of \<^verbatim>\<open>worker.js\<close> answers the same message with the error
  \<open>Game not active.\<close>
\<close>

theorem placePixel_before_start_unanswered:
  "heap room1 0 = Some \<lparr>ws = 0, playerId = ''p1'', color = ''#FF0000'', lastPlacement = 0\<rparr>
   \<and> gameStarted room1 = False
   \<and> onMessage allDelivered 0 (placePixel 0 0) 5000 room1 = room1
   \<and> onMessage_worker allDelivered 0 (placePixel 0 0) 5000 room1
       = room1\<lparr>wire := wire room1 @ [Sent 0 (ErrorMsg ''Game not active.'')]\<rparr>"
  by (simp add: room1_fields onMessage_def onMessage_worker_def placePixel_def send_def)

section \<open>Coordinates that are no integers\<close>

text \<open>
  Claim C4. The game runs with two players; the first sends \<^verbatim>\<open>{"x":1.5,"y":0}\<close>.
  The test of \<^verbatim>\<open>handlePlacePixel\<close> lets the request through: the session's
  \<^verbatim>\<open>lastPlacement\<close> becomes the time of the request, its colour's score goes from 0
  to 1, the row object gets a property \<open>1.5\<close>, and a \<open>PixelUpdate\<close> is broadcast; no
  error message is sent.
\<close>

theorem fractional_x_is_painted:
  "gameStarted room2 \<and> gameOver room2 = False
   \<and> heap room2 0 = Some \<lparr>ws = 0, playerId = ''p1'', color = ''#FF0000'', lastPlacement = 0\<rparr>
   \<and> scores room2 = [(''#FF0000'', 0), (''#00FF00'', 0)]
   \<and> roomHalf = onMessage allDelivered 0 (placePixel (3 / 2) 0) 5000 room2
   \<and> scores roomHalf = [(''#FF0000'', 1), (''#00FF00'', 0)]
   \<and> heap roomHalf 0
       = Some \<lparr>ws = 0, playerId = ''p1'', color = ''#FF0000'', lastPlacement = 5000\<rparr>
   \<and> canvasState roomHalf
       = initializeCanvas[0 := (initializeRow CANVAS_WIDTH)(3 / 2 \<mapsto> ''#FF0000'')]
   \<and> wire roomHalf = wire room2 @
       [Sent 0 (PixelUpdate (3 / 2) 0 ''#FF0000'' [(''#FF0000'', 1), (''#00FF00'', 0)]),
        Sent 1 (PixelUpdate (3 / 2) 0 ''#FF0000'' [(''#FF0000'', 1), (''#00FF00'', 0)])]"
  by (simp add: room2_fields roomHalf_fields) (simp add: roomHalf_def)

text \<open>
  Claim C1. The state reached by that request is reachable, and in it the scores sum to 1
  while all 10000 cells are still unset: scores plus unset cells is 10001, not the area of
  the grid. (Without such a request the sum is the area, see
  \<open>accounting_with_whole_columns\<close>.)
\<close>

theorem accounting_broken_by_fractional_x:
  "reachable roomHalf
   \<and> scoreSum (scores roomHalf) + int (unsetCells (canvasState roomHalf)) = 10001
   \<and> int (CANVAS_WIDTH * CANVAS_HEIGHT) = 10000"
proof -
  have "scoreSum (scores roomHalf) = 1"
    by (simp add: roomHalf_fields scoreSum_def)
  moreover have "int (CANVAS_WIDTH * CANVAS_HEIGHT) = 10000"
    by (simp add: CANVAS_WIDTH_def CANVAS_HEIGHT_def)
  ultimately show ?thesis
    using reachable_roomHalf unsetCells_roomHalf by simp
qed

section \<open>Cooldown\<close>

lemma handlePlacePixel_in_cooldown:
  assumes "now - lastPlacement sess < COOLDOWN_MS"
  shows "handlePlacePixel broken sess pl now s =
           (if pl = Nullish then Inl TypeError
            else if passesValidation pl then Inr s
            else Inr (send (ws sess) (ErrorMsg ''Invalid coordinates.'') s))"
proof (cases pl)
  case Nullish
  then show ?thesis by (simp add: handlePlacePixel_def)
next
  case (Fields jx jy)
  show ?thesis
  proof (cases "\<exists>x y. jx = JNum x \<and> jy = JNum y")
    case True
    then obtain x y where "jx = JNum x" "jy = JNum y" by blast
    then show ?thesis using Fields assms by (simp add: handlePlacePixel_def)
  next
    case False
    then have "\<not> passesValidation pl"
      unfolding Fields by (cases jx; cases jy) simp_all
    moreover have "handlePlacePixel broken sess pl now s
        = Inr (send (ws sess) (ErrorMsg ''Invalid coordinates.'') s)"
      using False unfolding Fields by (cases jx; cases jy) (simp_all add: handlePlacePixel_def)
    ultimately show ?thesis using Fields by simp
  qed
qed

lemma applied_stamps_session:
  assumes "roomInv s" and "canvasState (onMessage broken w req now s) \<noteq> canvasState s"
  shows "\<exists>sess'. heap (onMessage broken w req now s) w = Some sess' \<and> lastPlacement sess' = now"
  using onMessage_cases[OF assms(1), of broken w req now] assms(2)
  by (auto simp: frame_def)

text \<open>
  Claim C5. A request that is applied (it changes the canvas) stamps its session with the
  time of the request. A \<^verbatim>\<open>placePixel\<close> of that session less than 1000 ms after the
  stamp that gets past the validation of the coordinates is dropped: \<^verbatim>\<open>handlePlacePixel\<close>
  returns with the room as it was, and so does the listener (in \<^verbatim>\<open>worker.js\<close> too,
  while the game runs), so there is no reply, no mutation and no broadcast. What the
  listener does with any payload inside the cooldown is the last equation: the validation
  comes first, so in a running game a payload that fails it is answered with the error of
  the validation; everything else leaves the room as it was.
\<close>

theorem cooldown_drop:
  assumes "reachable s"
  shows "(\<forall>sess. heap s w = Some sess \<and> now - lastPlacement sess < COOLDOWN_MS \<longrightarrow>
            (passesValidation pl \<longrightarrow>
               handlePlacePixel broken sess pl now s = Inr s
               \<and> onMessage broken w (Request (JStr ''placePixel'') pl) now s = s
               \<and> (gameStarted s \<and> \<not> gameOver s \<longrightarrow>
                    onMessage_worker broken w (Request (JStr ''placePixel'') pl) now s = s))
            \<and> onMessage broken w (Request (JStr ''placePixel'') pl) now s =
                (if gameStarted s \<and> \<not> gameOver s \<and> \<not> passesValidation pl
                 then send w (ErrorMsg (if pl = Nullish then ''Invalid message format.''
                                        else ''Invalid coordinates.'')) s
                 else s))
       \<and> (canvasState (onMessage broken w req now s) \<noteq> canvasState s \<longrightarrow>
            (\<exists>sess'. heap (onMessage broken w req now s) w = Some sess'
                \<and> lastPlacement sess' = now))"
proof (intro conjI allI impI)
  assume "canvasState (onMessage broken w req now s) \<noteq> canvasState s"
  then show "\<exists>sess'. heap (onMessage broken w req now s) w = Some sess'
                \<and> lastPlacement sess' = now"
    using applied_stamps_session[OF reachable_roomInv[OF assms]] by blast
next
  fix sess
  assume h: "heap s w = Some sess \<and> now - lastPlacement sess < COOLDOWN_MS"
  have w: "ws sess = w" using reachable_roomInv[OF assms] h by (simp add: roomInv_def)
  note hp = handlePlacePixel_in_cooldown[of now sess broken pl s]
  {
    assume "passesValidation pl"
    then have np: "pl \<noteq> Nullish" by auto
    show "handlePlacePixel broken sess pl now s = Inr s"
      using hp h \<open>passesValidation pl\<close> np by simp
    then show "onMessage broken w (Request (JStr ''placePixel'') pl) now s = s"
      using h by (simp add: onMessage_def)
    {
      assume "gameStarted s \<and> \<not> gameOver s"
      then show "onMessage_worker broken w (Request (JStr ''placePixel'') pl) now s = s"
        using h \<open>handlePlacePixel broken sess pl now s = Inr s\<close>
        by (simp add: onMessage_worker_def)
    }
  }
  show "onMessage broken w (Request (JStr ''placePixel'') pl) now s =
          (if gameStarted s \<and> \<not> gameOver s \<and> \<not> passesValidation pl
           then send w (ErrorMsg (if pl = Nullish then ''Invalid message format.''
                                  else ''Invalid coordinates.'')) s
           else s)"
    using hp h w by (auto simp: onMessage_def)
qed

lemma room3_canvas_changed: "canvasState room3 \<noteq> canvasState room2"
proof
  assume "canvasState room3 = canvasState room2"
  then have "cellAt (canvasState room3) 3 4 = cellAt (canvasState room2) 3 4" by simp
  then show False
    by (simp add: room3_fields room2_fields cellAt_update length_initializeCanvas)
      (simp add: cellAt_def rowAt_def length_initializeCanvas nth_initializeCanvas
        initializeRow_apply CANVAS_WIDTH_def WHITE_def)
qed

theorem cooldown_drop_witness:
  "reachable room2
   \<and> room3 = onMessage allDelivered 0 (placePixel 3 4) 5000 room2
   \<and> canvasState room3 \<noteq> canvasState room2
   \<and> heap room3 0 = Some \<lparr>ws = 0, playerId = ''p1'', color = ''#FF0000'', lastPlacement = 5000\<rparr>
   \<and> reachable room3
   \<and> 5500 - 5000 < COOLDOWN_MS
   \<and> passesValidation (Fields (JNum 7) (JNum 7))
   \<and> onMessage allDelivered 0 (placePixel 7 7) 5500 room3 = room3
   \<and> onMessage allDelivered 0 (placePixel (- 1) 0) 5500 room3
       = send 0 (ErrorMsg ''Invalid coordinates.'') room3"
  using cooldown_drop[OF reachable_room3, of 0 5500 "Fields (JNum 7) (JNum 7)" allDelivered]
    cooldown_drop[OF reachable_room3, of 0 5500 "Fields (JNum (- 1)) (JNum 0)" allDelivered]
    cooldown_drop[OF reachable_room2, of 0 5000 _ allDelivered "placePixel 3 4"]
    reachable_room2 reachable_room3 room3_canvas_changed
  by (simp add: room3_fields COOLDOWN_MS_def CANVAS_WIDTH_def CANVAS_HEIGHT_def placePixel_def)
    (simp add: room3_def placePixel_def)

section \<open>The colour of a session in \<^verbatim>\<open>worker.js\<close>\<close>

lemma workerRoom1_fields:
  "sessions workerRoom1 = [0]"
  "heap workerRoom1 = [0 \<mapsto> \<lparr>ws = 0, playerId = ''p1'', color = ''#FF0000'', lastPlacement = 0\<rparr>]"
  "nextWs workerRoom1 = 1"
  "canvasState workerRoom1 = initializeCanvas" "scores workerRoom1 = [(''#FF0000'', 0)]"
  "timeLeft workerRoom1 = 300"
  "gameStarted workerRoom1 = False" "gameOver workerRoom1 = False"
  "store workerRoom1 = emptyStorage"
  by (simp_all add: workerRoom1_def fetch_worker_def handleSession_worker_def registerSession_def
      Let_def first_colour room0_fields MAX_PLAYERS_PER_ROOM_def MIN_PLAYERS_TO_START_def
      scoreTruthy_def send_def broadcast_eq allDelivered_def)

lemma workerRoom2_fields:
  "sessions workerRoom2 = [0, 1]"
  "heap workerRoom2 = [0 \<mapsto> \<lparr>ws = 0, playerId = ''p1'', color = ''#FF0000'', lastPlacement = 0\<rparr>,
                 1 \<mapsto> \<lparr>ws = 1, playerId = ''p2'', color = ''#FFFFFF'', lastPlacement = 0\<rparr>]"
  "canvasState workerRoom2 = initializeCanvas"
  "scores workerRoom2 = [(''#FF0000'', 0), (''#FFFFFF'', 0)]"
  "gameStarted workerRoom2 = True" "gameOver workerRoom2 = False"
  by (simp_all add: workerRoom2_def fetch_worker_def handleSession_worker_def registerSession_def
      Let_def workerRoom1_fields MAX_PLAYERS_PER_ROOM_def MIN_PLAYERS_TO_START_def
      scoreTruthy_def send_def broadcast_eq allDelivered_def startGame_def startTimer_def
      GAME_DURATION_SECONDS_def)

lemma workerRoom3_fields:
  "canvasState workerRoom3
     = initializeCanvas[4 := (initializeRow CANVAS_WIDTH)(3 \<mapsto> ''#FF0000'')]"
  "scores workerRoom3 = [(''#FF0000'', 1), (''#FFFFFF'', 0)]"
  "heap workerRoom3 (Suc 0)
     = Some \<lparr>ws = 1, playerId = ''p2'', color = ''#FFFFFF'', lastPlacement = 0\<rparr>"
  "gameStarted workerRoom3 = True" "gameOver workerRoom3 = False"
  by (simp_all add: workerRoom3_def placePixel_def onMessage_worker_def handlePlacePixel_def
      workerRoom2_fields Let_def rowAt_def length_initializeCanvas nth_initializeCanvas
      initializeRow_apply CANVAS_WIDTH_def CANVAS_HEIGHT_def COOLDOWN_MS_def WHITE_def
      scoreTruthy_def propertyKey_def decrementOld_def incrementNew_def broadcast_eq
      saveState_def allDelivered_def)

lemma workerRoom4_fields:
  "canvasState workerRoom4
     = initializeCanvas[4 := (initializeRow CANVAS_WIDTH)(3 \<mapsto> ''#FFFFFF'')]"
  "scores workerRoom4 = [(''#FF0000'', 0), (''#FFFFFF'', 1)]"
  by (simp_all add: workerRoom4_def placePixel_def onMessage_worker_def handlePlacePixel_def
      workerRoom3_fields Let_def rowAt_def length_initializeCanvas
      CANVAS_WIDTH_def CANVAS_HEIGHT_def COOLDOWN_MS_def WHITE_def
      scoreTruthy_def propertyKey_def decrementOld_def incrementNew_def broadcast_eq
      saveState_def allDelivered_def)

lemma unsetCells_workerRoom3: "unsetCells (canvasState workerRoom3) = 9999"
  using unsetCells_room3 by (simp add: workerRoom3_fields room3_fields)

lemma unsetCells_workerRoom4: "unsetCells (canvasState workerRoom4) = 10000"
proof -
  have "(initializeRow CANVAS_WIDTH)(3 \<mapsto> ''#FFFFFF'') = initializeRow CANVAS_WIDTH"
    by (rule ext) (simp add: initializeRow_apply CANVAS_WIDTH_def WHITE_def)
  then have "canvasState workerRoom4 = initializeCanvas"
    by (simp add: workerRoom4_fields nth_initializeCanvas[of 4, symmetric])
  then show ?thesis by (simp add: unsetCells_initial)
qed

text \<open>
  Claim C10. Under \<^verbatim>\<open>worker.js\<close> a client that connects with
  \<^verbatim>\<open>?color=%23FFFFFF\<close> gets a session of the unset colour. The first player has
  painted the cell \<open>(3, 4)\<close>; the placement of that session returns the cell to the unset
  colour, and the number of unset cells grows from 9999 to 10000.
\<close>

theorem worker_white_session_repaints:
  "heap workerRoom2 1
     = Some \<lparr>ws = 1, playerId = ''p2'', color = ''#FFFFFF'', lastPlacement = 0\<rparr>
   \<and> workerRoom3 = onMessage_worker allDelivered 0 (placePixel 3 4) 5000 workerRoom2
   \<and> workerRoom4 = onMessage_worker allDelivered 1 (placePixel 3 4) 5000 workerRoom3
   \<and> cellAt (canvasState workerRoom3) 3 4 = Some ''#FF0000''
   \<and> cellAt (canvasState workerRoom4) 3 4 = Some ''#FFFFFF''
   \<and> WHITE = ''#FFFFFF''
   \<and> unsetCells (canvasState workerRoom3) = 9999
   \<and> unsetCells (canvasState workerRoom4) = 10000"
  using unsetCells_workerRoom3 unsetCells_workerRoom4
  by (simp add: workerRoom2_fields workerRoom3_fields workerRoom4_fields cellAt_update
      length_initializeCanvas WHITE_def) (simp add: workerRoom3_def workerRoom4_def)

theorem worker_white_session_repaints_witness:
  "unsetCells (canvasState (onMessage_worker allDelivered 0 (placePixel 3 4) 5000 workerRoom2))
     = 9999
   \<and> unsetCells (canvasState (onMessage_worker allDelivered 1 (placePixel 3 4) 5000
        (onMessage_worker allDelivered 0 (placePixel 3 4) 5000 workerRoom2))) = 10000"
  using worker_white_session_repaints by simp

text \<open>The keys that \<^verbatim>\<open>functions/gameroom.mjs\<close> looks up in the score object, the
  colours of \<^verbatim>\<open>assignColor\<close>, the unset colour and \<open>undefined\<close>, are not inherited
  names.\<close>

lemma own_keys:
  "c \<in> set PLAYER_COLORS \<Longrightarrow> c \<notin> set objectPrototypeNames"
  "WHITE \<notin> set objectPrototypeNames"
  "propertyKey None \<notin> set objectPrototypeNames"
  by (auto simp: PLAYER_COLORS_def objectPrototypeNames_def WHITE_def propertyKey_def)

lemma assignColor_own_key: "assignColor rnd s \<notin> set objectPrototypeNames"
proof (cases "find (\<lambda>c. c \<notin> set (usedColors s)) PLAYER_COLORS")
  case None
  then show ?thesis by (simp add: assignColor_def objectPrototypeNames_def)
next
  case (Some c)
  then have "c \<in> set PLAYER_COLORS" by (auto simp: find_Some_iff)
  with Some show ?thesis by (simp add: assignColor_def own_keys)
qed

section \<open>Instances on the sample run\<close>

theorem placePixel_own_colour_noop_witness:
  "heap room3 0 = Some \<lparr>ws = 0, playerId = ''p1'', color = ''#FF0000'', lastPlacement = 5000\<rparr>
   \<and> rowAt (canvasState room3) 4 = Some ((initializeRow CANVAS_WIDTH)(3 \<mapsto> ''#FF0000''))
   \<and> onMessage allDelivered 0 (placePixel 3 4) 9000 room3 = room3"
  using placePixel_own_colour_noop[of room3 0
      "\<lparr>ws = 0, playerId = ''p1'', color = ''#FF0000'', lastPlacement = 5000\<rparr>"
      3 4 "(initializeRow CANVAS_WIDTH)(3 \<mapsto> ''#FF0000'')" allDelivered 9000]
  by (simp add: room3_fields rowAt_def length_initializeCanvas CANVAS_WIDTH_def CANVAS_HEIGHT_def)

lemma connect_grows:
  assumes "length (sessions s) < MAX_PLAYERS_PER_ROOM" and "\<not> gameOver s"
  shows "length (sessions (step (Connect allDelivered (Some ''websocket'') p u r) s))
           = Suc (length (sessions s))
       \<and> \<not> gameOver (step (Connect allDelivered (Some ''websocket'') p u r) s)"
  using assms
  by (simp add: fetch_def handleSession_def registerSession_def Let_def send_def
      broadcast_fields startGame_def startTimer_def allDelivered_def)

lemma roomFull_prefix:
  "n \<le> 8 \<Longrightarrow>
   reachable (((step (Connect allDelivered (Some ''websocket'') None ''u'' 0)) ^^ n) room0)
   \<and> length (sessions (((step (Connect allDelivered (Some ''websocket'') None ''u'' 0)) ^^ n) room0)) = n
   \<and> \<not> gameOver (((step (Connect allDelivered (Some ''websocket'') None ''u'' 0)) ^^ n) room0)"
proof (induction n)
  case 0
  have "reachable room0" unfolding room0_def by (rule reachable.first_activation)
  then show ?case by (simp add: room0_fields)
next
  case (Suc n)
  let ?c = "Connect allDelivered (Some ''websocket'') None ''u'' 0"
  let ?s = "(step ?c ^^ n) room0"
  have "n \<le> 8" using Suc.prems by simp
  note all = Suc.IH[OF this]
  have ih: "reachable ?s" "length (sessions ?s) = n" "\<not> gameOver ?s"
    using all by blast+
  have r: "reachable (step ?c ?s)" using ih(1) by (rule reachable.after_event) simp
  have "length (sessions ?s) < MAX_PLAYERS_PER_ROOM"
    using ih(2) Suc.prems by (simp add: MAX_PLAYERS_PER_ROOM_def)
  from connect_grows[OF this ih(3), of None "''u''" 0]
  have g: "length (sessions (step ?c ?s)) = Suc n" "\<not> gameOver (step ?c ?s)"
    using ih(2) by simp_all
  have "(step ?c ^^ Suc n) room0 = step ?c ?s" by (simp only: funpow.simps o_apply)
  then show ?case using r g by (simp only:) simp
qed

lemma roomFull_facts: "reachable roomFull" "length (sessions roomFull) = 8"
  using roomFull_prefix[of 8] unfolding roomFull_def by blast+

theorem sessions_at_most_eight_witness:
  "reachable roomFull \<and> length (sessions roomFull) = 8
   \<and> handleSession allDelivered 8 ''p9'' ''#123456'' roomFull
       = roomFull\<lparr>wire := wire roomFull @ [Sent 8 (ErrorMsg ''Game room is full.''),
                                            Closed 8 1008 ''Room full'']\<rparr>
   \<and> length (sessions (snd (fetch allDelivered (Some ''websocket'') None ''u'' 0 roomFull))) \<le> 8"
  using sessions_at_most_eight[of roomFull allDelivered "Some ''websocket''" None "''u''" 0
      8 "''p9''" "''#123456''"] roomFull_facts
  by simp

theorem placePixel_before_start_unanswered_witness:
  "wire (onMessage allDelivered 0 (placePixel 0 0) 5000 room1) = wire room1
   \<and> wire (onMessage_worker allDelivered 0 (placePixel 0 0) 5000 room1)
       = wire room1 @ [Sent 0 (ErrorMsg ''Game not active.'')]"
  using placePixel_before_start_unanswered by simp

theorem fractional_x_is_painted_witness:
  "scoreSum (scores (onMessage allDelivered 0 (placePixel (3 / 2) 0) 5000 room2)) = 1
   \<and> scoreSum (scores room2) = 0"
  using fractional_x_is_painted by (simp add: scoreSum_def)

theorem endGame_winnerColor_witness:
  "reachable room3
   \<and> scores room3 = [(''#FF0000'', 1), (''#00FF00'', 0)]
   \<and> finalWinner (scores room3) = Some ''#FF0000''
   \<and> wire (endGame allDelivered room3) = wire room3 @
       [Sent 0 (GameOver (Some ''#FF0000'') [(''#FF0000'', 1), (''#00FF00'', 0)]),
        Sent 1 (GameOver (Some ''#FF0000'') [(''#FF0000'', 1), (''#00FF00'', 0)])]"
  using endGame_winnerColor[OF reachable_room3, of allDelivered] reachable_room3
  by (simp add: room3_fields finalWinner_def allDelivered_def)

end
